(* ===== verification/Prelude.thy ===== *)
theory Prelude
  imports Main "HOL-Library.Word"
begin

unbundle bit_operations_syntax

text \<open>
  What every component of the development shares: the machine integers of the target
  (x86-64 Linux, LP64), the faults that undefined behaviour is turned into, a small error
  monad, C strings inside byte arrays, and reachability for step relations.
  A byte of memory is a \<open>char\<close> (HOL's eight-bit character), an array is a list of them.
  The collection \<open>c_simps\<close> holds the rules that unfold the error monad and the byte
  primitives; \<open>step_intros\<close> is for the invariants of step relations.
\<close>

named_theorems c_simps \<open>unfolding rules of the error monad and of byte arrays\<close>

section \<open>Machine integers\<close>

type_synonym u8 = "8 word"
type_synonym u16 = "16 word"
type_synonym u32 = "32 word"
type_synonym u64 = "64 word"

section \<open>Faults and the error monad\<close>

text \<open>
  C gives no meaning to an access outside an object, through a null pointer, to freed or to uninitialised
  memory. The models return one of these faults there, so that memory safety is the
  statement that the result is an \<open>Inr\<close>.
\<close>

datatype fault = Out_Of_Bounds | Null_Deref | Use_After_Free | Unterminated | Uninitialised

type_synonym 'a may_fault = "fault + 'a"

definition rbind :: "'e + 'a \<Rightarrow> ('a \<Rightarrow> 'e + 'b) \<Rightarrow> 'e + 'b" where
  "rbind m f = (case m of Inl e \<Rightarrow> Inl e | Inr x \<Rightarrow> f x)"

lemma rbind_simps [simp]:
  "rbind (Inl e) f = Inl e"
  "rbind (Inr x) f = f x"
  by (simp_all add: rbind_def)

lemma rbind_Inr_iff: "rbind m f = Inr y \<longleftrightarrow> (\<exists>x. m = Inr x \<and> f x = Inr y)"
  by (cases m) auto

lemma rbind_Inl_iff: "rbind m f = Inl e \<longleftrightarrow> m = Inl e \<or> (\<exists>x. m = Inr x \<and> f x = Inl e)"
  by (cases m) auto

lemma rbind_assoc: "rbind (rbind m f) g = rbind m (\<lambda>x. rbind (f x) g)"
  by (cases m) auto

lemma rbind_cong [fundef_cong]:
  "m = m' \<Longrightarrow> (\<And>x. m' = Inr x \<Longrightarrow> f x = f' x) \<Longrightarrow> rbind m f = rbind m' f'"
  by (cases m') auto

text \<open>
  How a user program can stop: by \<open>exit\<close>, by undefined behaviour, in a call that never returns,
  or, in the models that bound a recursion, because the bound was too small (theorems say which bound is enough).
\<close>

datatype halt = Exited int | Faulted fault | No_fuel | Blocked

definition checked :: "'a may_fault \<Rightarrow> halt + 'a" where
  "checked m = (case m of Inl f \<Rightarrow> Inl (Faulted f) | Inr x \<Rightarrow> Inr x)"

lemma checked_simps [simp]:
  "checked (Inl f) = Inl (Faulted f)"
  "checked (Inr x) = Inr x"
  by (simp_all add: checked_def)

section \<open>Words as numbers\<close>

lemma unat_ucast_u32_u64 [simp]: "unat (ucast (x :: u32) :: u64) = unat x"
proof -
  have "unat x < 2 ^ 32"
    using unsigned_less [of x] by simp
  then show ?thesis
    by (simp add: unsigned_ucast_eq take_bit_nat_eq_self)
qed

lemma unat_u32_less: "unat (x :: u32) < 4294967296"
  using unsigned_less [of x, where ?'a = nat] by simp

lemma unat_u64_less: "unat (x :: u64) < 18446744073709551616"
  using unsigned_less [of x, where ?'a = nat] by simp

lemma unat_minus_one_u64: "unat (- 1 :: u64) = 18446744073709551615"
  by (simp add: unsigned_minus_1_eq_mask mask_eq_exp_minus_1)

lemma scast_of_nat_u32_u64: "n < 2 ^ 31 \<Longrightarrow> scast (of_nat n :: u32) = (of_nat n :: u64)"
  by (simp add: signed_of_nat signed_take_bit_int_eq_self)

lemma unat_of_nat_u32: "n < 4294967296 \<Longrightarrow> unat (of_nat n :: u32) = n"
  by (simp add: unat_of_nat take_bit_nat_eq_self)

lemma unat_of_nat_u64: "n < 18446744073709551616 \<Longrightarrow> unat (of_nat n :: u64) = n"
  by (simp add: unat_of_nat take_bit_nat_eq_self)

lemma unat_Suc_u64: "x \<noteq> - 1 \<Longrightarrow> unat ((x :: u64) + 1) = Suc (unat x)"
  by (metis add.commute unatSuc add_eq_0_iff)

lemma unat_of_nat_small: "n < 2 ^ LENGTH('a::len) \<Longrightarrow> unat (of_nat n :: 'a word) = n"
  by (simp add: unat_of_nat take_bit_nat_eq_self)

section \<open>Kernel and libc error numbers\<close>

datatype errno = EFAULT | ENOSPC | ENOMEM | EAGAIN | EINTR | EEXIST | Eother int

section \<open>Bytes, C strings\<close>

abbreviation nul :: char where
  "nul \<equiv> CHR 0x00"

definition cstr :: "char list \<Rightarrow> nat \<Rightarrow> char list" where
  \<comment> \<open>the C string that starts at offset \<open>i\<close> of the array\<close>
  "cstr m i = takeWhile (\<lambda>c. c \<noteq> nul) (drop i m)"

definition terminated :: "char list \<Rightarrow> nat \<Rightarrow> bool" where
  \<comment> \<open>a NUL is found at or after offset \<open>i\<close> before the array ends\<close>
  "terminated m i \<longleftrightarrow> nul \<in> set (drop i m)"

definition c_strlen :: "char list \<Rightarrow> nat \<Rightarrow> nat may_fault" where
  "c_strlen m i = (if terminated m i then Inr (length (cstr m i)) else Inl Unterminated)"

definition mem_put :: "char list \<Rightarrow> nat \<Rightarrow> char list \<Rightarrow> char list may_fault" where
  \<comment> \<open>store the bytes \<open>bs\<close> from offset \<open>i\<close> on\<close>
  "mem_put m i bs =
     (if i + length bs \<le> length m then Inr (take i m @ bs @ drop (i + length bs) m)
      else Inl Out_Of_Bounds)"

definition mem_get :: "char list \<Rightarrow> nat \<Rightarrow> nat \<Rightarrow> char list may_fault" where
  \<comment> \<open>load \<open>n\<close> bytes from offset \<open>i\<close> on\<close>
  "mem_get m i n = (if i + n \<le> length m then Inr (take n (drop i m)) else Inl Out_Of_Bounds)"

definition c_string :: "char list \<Rightarrow> nat \<Rightarrow> char list may_fault" where
  \<comment> \<open>what a \<open>%s\<close> conversion prints for a pointer to offset \<open>i\<close>\<close>
  "c_string m i = (if terminated m i then Inr (cstr m i) else Inl Unterminated)"

definition c_strcpy :: "char list \<Rightarrow> nat \<Rightarrow> char list \<Rightarrow> char list may_fault" where
  "c_strcpy m i s = mem_put m i (s @ [nul])"

definition nul_free :: "char list \<Rightarrow> bool" where
  "nul_free s \<longleftrightarrow> nul \<notin> set s"

lemma nul_free_simps [simp]:
  "nul_free []"
  "nul_free (c # s) \<longleftrightarrow> c \<noteq> nul \<and> nul_free s"
  "nul_free (s @ t) \<longleftrightarrow> nul_free s \<and> nul_free t"
  by (auto simp: nul_free_def)

lemma nul_free_takeWhile [simp]: "nul_free (takeWhile (\<lambda>c. c \<noteq> nul) s)"
  by (auto simp: nul_free_def dest: set_takeWhileD)

lemma nul_free_take: "nul_free s \<Longrightarrow> nul_free (take n s)"
  by (auto simp: nul_free_def dest: in_set_takeD)

lemma nul_free_drop: "nul_free s \<Longrightarrow> nul_free (drop n s)"
  by (auto simp: nul_free_def dest: in_set_dropD)

lemma takeWhile_nul_free:
  "nul_free s \<Longrightarrow> takeWhile (\<lambda>c. c \<noteq> nul) (s @ nul # t) = s"
  by (induction s) auto

lemma cstr_nul_free [simp]: "nul_free (cstr m i)"
  by (simp add: cstr_def)

lemma cstr_prefix: "nul_free s \<Longrightarrow> cstr (s @ nul # t) 0 = s"
  by (simp add: cstr_def takeWhile_nul_free)

lemma cstr_at: "nul_free s \<Longrightarrow> length p = i \<Longrightarrow> cstr (p @ s @ nul # t) i = s"
  by (simp add: cstr_def takeWhile_nul_free)

lemma terminated_at: "length p = i \<Longrightarrow> terminated (p @ s @ nul # t) i"
  by (simp add: terminated_def)

lemma terminatedI: "i \<le> k \<Longrightarrow> k < length m \<Longrightarrow> m ! k = nul \<Longrightarrow> terminated m i"
  by (force simp: terminated_def in_set_conv_nth intro: exI [of _ "k - i"])

text \<open>A terminated string splits the rest of the array at its NUL.\<close>

lemma terminated_split:
  assumes "terminated m i"
  shows "\<exists>t. drop i m = cstr m i @ nul # t"
proof -
  have "dropWhile (\<lambda>c. c \<noteq> nul) (drop i m) \<noteq> []"
    using assms by (auto simp: terminated_def dropWhile_eq_Nil_conv)
  then obtain c t where ct: "dropWhile (\<lambda>c. c \<noteq> nul) (drop i m) = c # t"
    by (meson neq_Nil_conv)
  then have "c = nul"
    using hd_dropWhile [of "\<lambda>c. c \<noteq> nul" "drop i m"] by simp
  with ct have "drop i m = cstr m i @ nul # t"
    unfolding cstr_def by (metis takeWhile_dropWhile_id)
  then show ?thesis ..
qed

lemma terminated_length:
  assumes "terminated m i"
  shows "i + length (cstr m i) < length m"
proof -
  obtain t where "drop i m = cstr m i @ nul # t"
    using terminated_split [OF assms] by blast
  then have "length m - i = length (cstr m i) + Suc (length t)"
    by (metis length_append length_drop length_Cons)
  then show ?thesis by simp
qed

lemma cstr_length_le:
  assumes "i \<le> k" "k < length m" "m ! k = nul"
  shows "i + length (cstr m i) \<le> k"
proof -
  have "\<not> (length (cstr m i) > k - i)"
  proof
    assume gt: "length (cstr m i) > k - i"
    then have "cstr m i ! (k - i) = drop i m ! (k - i)"
      unfolding cstr_def by (rule takeWhile_nth)
    then have "cstr m i ! (k - i) = nul"
      using assms by simp
    moreover have "nul_free (cstr m i)" by simp
    ultimately show False
      using gt by (metis nth_mem nul_free_def)
  qed
  with assms show ?thesis by simp
qed

lemma c_strlen_Inr: "terminated m i \<Longrightarrow> c_strlen m i = Inr (length (cstr m i))"
  by (simp add: c_strlen_def)

lemma c_string_Inr: "terminated m i \<Longrightarrow> c_string m i = Inr (cstr m i)"
  by (simp add: c_string_def)

lemma mem_get_ok: "i + n \<le> length m \<Longrightarrow> mem_get m i n = Inr (take n (drop i m))"
  by (simp add: mem_get_def)

lemma mem_put_ok:
  "i + length bs \<le> length m \<Longrightarrow> mem_put m i bs = Inr (take i m @ bs @ drop (i + length bs) m)"
  by (simp add: mem_put_def)

lemma mem_put_Inr_iff [c_simps]:
  "mem_put m i bs = Inr m' \<longleftrightarrow>
     i + length bs \<le> length m \<and> m' = take i m @ bs @ drop (i + length bs) m"
  by (auto simp: mem_put_def)

lemma mem_put_Inl_iff: "mem_put m i bs = Inl e \<longleftrightarrow> length m < i + length bs \<and> e = Out_Of_Bounds"
  by (auto simp: mem_put_def)

lemma mem_put_length: "mem_put m i bs = Inr m' \<Longrightarrow> length m' = length m"
  by (auto simp: c_simps)

lemma mem_put_take: "mem_put m i bs = Inr m' \<Longrightarrow> k \<le> i \<Longrightarrow> take k m' = take k m"
  by (auto simp: c_simps min_def)

lemma mem_put_drop: "mem_put m i bs = Inr m' \<Longrightarrow> i + length bs \<le> k \<Longrightarrow> drop k m' = drop k m"
  by (auto simp: c_simps)

lemma mem_put_nth: "mem_put m i bs = Inr m' \<Longrightarrow> k < i \<Longrightarrow> m' ! k = m ! k"
  by (auto simp: c_simps nth_append)

lemma mem_put_put_end:
  "i + length bs < length m \<Longrightarrow>
     mem_put (take i m @ bs @ drop (i + length bs) m) (i + length bs) [c] =
       Inr (take i m @ bs @ c # drop (Suc (i + length bs)) m)"
  by (simp add: mem_put_def min_def)

lemma takeWhile_append_nul:
  "takeWhile (\<lambda>c. c \<noteq> nul) (s @ nul # t) = takeWhile (\<lambda>c. c \<noteq> nul) s"
  by (induction s) auto

section \<open>Reachability\<close>

text \<open>
  A system with choice is an initial-state predicate and a step relation; \<open>reach\<close> is the
  set of its reachable states and \<open>reach_invariant\<close> the one rule by which invariants are
  proved.
\<close>

inductive reach :: "('s \<Rightarrow> bool) \<Rightarrow> ('s \<Rightarrow> 's \<Rightarrow> bool) \<Rightarrow> 's \<Rightarrow> bool"
  for start :: "'s \<Rightarrow> bool" and step :: "'s \<Rightarrow> 's \<Rightarrow> bool" where
  reach_start: "start s \<Longrightarrow> reach start step s"
| reach_step: "reach start step s \<Longrightarrow> step s t \<Longrightarrow> reach start step t"

lemma reach_invariant:
  assumes "reach start step s"
    and "\<And>s. start s \<Longrightarrow> I s"
    and "\<And>s t. I s \<Longrightarrow> step s t \<Longrightarrow> I t"
  shows "I s"
  using assms(1)
proof (induction rule: reach.induct)
  case (reach_start s)
  then show ?case by (rule assms(2))
next
  case (reach_step s t)
  then show ?case using assms(3) by blast
qed

text \<open>A run given as the list of the states it passes, for closed examples.\<close>

fun run_through :: "('s \<Rightarrow> 's \<Rightarrow> bool) \<Rightarrow> 's \<Rightarrow> 's list \<Rightarrow> bool" where
  "run_through step s [] \<longleftrightarrow> True"
| "run_through step s (t # ts) \<longleftrightarrow> step s t \<and> run_through step t ts"

lemma run_through_reach:
  "reach start step s \<Longrightarrow> run_through step s ts \<Longrightarrow> reach start step (last (s # ts))"
proof (induction ts arbitrary: s)
  case Nil
  then show ?case by simp
next
  case (Cons t ts)
  from Cons.prems have "reach start step t"
    by (auto intro: reach_step)
  with Cons.prems Cons.IH have "reach start step (last (t # ts))"
    by auto
  then show ?case by simp
qed

end
