(* ===== verification/Ftw.thy ===== *)
theory Ftw
  imports Prelude
begin

text \<open>
  What the two file-tree walkers of \<open>lab_02/ftw\<close> (\<open>nochdir.c\<close> and \<open>chdir.c\<close>) share: the
  operating system as parameters, \<open>path_alloc\<close>, the callback \<open>myfunc\<close> with its counters,
  and the reference: a tree of files, the calls of the callback a pre-order walk of it
  makes, and the counters these calls produce.
\<close>

section \<open>File types and the callback\<close>

datatype ftype = S_IFREG | S_IFBLK | S_IFCHR | S_IFIFO | S_IFLNK | S_IFSOCK | S_IFDIR | S_IFNONE

definition FTW_F :: nat where "FTW_F = 1"
definition FTW_D :: nat where "FTW_D = 2"
definition FTW_DNR :: nat where "FTW_DNR = 3"
definition FTW_NS :: nat where "FTW_NS = 4"

definition NAME_MAX :: nat where "NAME_MAX = 255"

datatype ftw_out =
    Text string \<comment> \<open>the line printed for an entry\<close>
  | Msg_is_dir string
  | Msg_denied string
  | Msg_stat_failed string
  | Msg_unknown nat string

record ftw_tally =
  nreg :: int
  ndir :: int
  nblk :: int
  nchr :: int
  nfifo :: int
  nslink :: int
  nsock :: int
  ftw_output :: "ftw_out list"

definition ftw_tally0 :: ftw_tally where
  "ftw_tally0 = \<lparr>nreg = 0, ndir = 0, nblk = 0, nchr = 0, nfifo = 0, nslink = 0, nsock = 0,
     ftw_output = []\<rparr>"

definition put_out :: "ftw_out \<Rightarrow> ftw_tally \<Rightarrow> ftw_tally" where
  "put_out x c = c\<lparr>ftw_output := ftw_output c @ [x]\<rparr>"

definition last_name :: "string \<Rightarrow> string" where
  \<comment> \<open>\<open>strrchr(pathname, '/')\<close> plus one, or the whole path without a slash\<close>
  "last_name p = rev (takeWhile (\<lambda>c. c \<noteq> CHR ''/'') (rev p))"

definition entry_line :: "nat \<Rightarrow> nat \<Rightarrow> string \<Rightarrow> string" where
  \<comment> \<open>\<open>for (i = from; i < depth; i++)\<close> a bar, then the branch below the root, then the name\<close>
  "entry_line lo depth p =
     concat (map (\<lambda>i. ''|   '') [lo..<depth]) @
     (if depth > 0 then ''|--- '' else []) @ last_name p @ [CHR 0x0A]"

definition count_file :: "string \<Rightarrow> ftype \<Rightarrow> ftw_tally \<Rightarrow> ftw_tally" where
  "count_file p k c =
     (case k of
        S_IFREG \<Rightarrow> c\<lparr>nreg := nreg c + 1\<rparr>
      | S_IFBLK \<Rightarrow> c\<lparr>nblk := nblk c + 1\<rparr>
      | S_IFCHR \<Rightarrow> c\<lparr>nchr := nchr c + 1\<rparr>
      | S_IFIFO \<Rightarrow> c\<lparr>nfifo := nfifo c + 1\<rparr>
      | S_IFLNK \<Rightarrow> c\<lparr>nslink := nslink c + 1\<rparr>
      | S_IFSOCK \<Rightarrow> c\<lparr>nsock := nsock c + 1\<rparr>
      | S_IFDIR \<Rightarrow> put_out (Msg_is_dir p) c
      | S_IFNONE \<Rightarrow> c)"

definition myfunc_from ::
  "nat \<Rightarrow> string \<Rightarrow> ftype \<Rightarrow> nat \<Rightarrow> nat \<Rightarrow> ftw_tally \<Rightarrow> ftw_tally \<times> int" where
  "myfunc_from lo p st_mode ty depth c =
     (let c1 = put_out (Text (entry_line lo depth p)) c in
      (if ty = FTW_F then count_file p st_mode c1
       else if ty = FTW_D then c1\<lparr>ndir := ndir c1 + 1\<rparr>
       else if ty = FTW_DNR then put_out (Msg_denied p) c1
       else if ty = FTW_NS then put_out (Msg_stat_failed p) c1
       else put_out (Msg_unknown ty p) c1, 0))"

text \<open>The two callbacks differ in where the indentation loop starts.\<close>

definition myfunc_nochdir :: "string \<Rightarrow> ftype \<Rightarrow> nat \<Rightarrow> nat \<Rightarrow> ftw_tally \<Rightarrow> ftw_tally \<times> int" where
  "myfunc_nochdir = myfunc_from 1"

definition myfunc_chdir :: "string \<Rightarrow> ftype \<Rightarrow> nat \<Rightarrow> nat \<Rightarrow> ftw_tally \<Rightarrow> ftw_tally \<times> int" where
  "myfunc_chdir = myfunc_from 0"

section \<open>The path buffer\<close>

text \<open>
  The globals \<open>fullpath\<close> (the block it points to) and \<open>pathlen\<close>. A fresh part of a block
  has some content \<open>junk\<close> the program does not know.
\<close>

record path_buf =
  fullpath :: "char list"
  pathlen :: nat

record alloc_env =
  mem_junk :: char
  realloc_ok :: "nat \<Rightarrow> bool"
  malloc_ok :: "nat \<Rightarrow> bool"

definition c_realloc :: "alloc_env \<Rightarrow> char list \<Rightarrow> nat \<Rightarrow> char list option" where
  "c_realloc env m n =
     (if realloc_ok env n \<and> 0 < n
      then Some (take n m @ replicate (n - length m) (mem_junk env)) else None)"

record path_sys =
  posix_version :: int
  xsi_version :: int
  pathmax :: int

record path_conf =
  sc_version :: int
  sc_xopen_version :: int
  pc_path_max :: "int + int" \<comment> \<open>\<open>Inl errno\<close> for a negative result\<close>

definition path_alloc ::
  "alloc_env \<Rightarrow> path_conf \<Rightarrow> path_sys \<Rightarrow> halt + (path_sys \<times> char list \<times> nat)" where
  "path_alloc env conf g =
     (let g1 = (if posix_version g = 0 then g\<lparr>posix_version := sc_version conf\<rparr> else g);
          g2 = (if xsi_version g1 = 0 then g1\<lparr>xsi_version := sc_xopen_version conf\<rparr> else g1) in
      rbind (if pathmax g2 = 0 then
               (case pc_path_max conf of
                  Inl err \<Rightarrow> if err = 0 then Inr (g2\<lparr>pathmax := 1024\<rparr>) else Inl (Exited 1)
                | Inr m \<Rightarrow> Inr (g2\<lparr>pathmax := m + 1\<rparr>))
             else Inr g2) (\<lambda>g3.
        let size = nat (if posix_version g3 < 200112 \<and> xsi_version g3 < 4
                        then pathmax g3 + 1 else pathmax g3) in
        if malloc_ok env size then Inr (g3, replicate size (mem_junk env), size)
        else Inl (Exited 1)))"

section \<open>The reference: file trees and the calls of a walk\<close>

text \<open>
  A tree as the walker can see it: a file of some type, an entry whose \<open>lstat\<close> fails, a
  directory that cannot be opened, or a directory with its entries in the order of
  \<open>readdir\<close> (without the two dot entries).
\<close>

datatype fstree = Leaf ftype | Gone | Locked | Dir "(string \<times> fstree) list"

type_synonym ftw_call = "string \<times> ftype \<times> nat \<times> nat"
  \<comment> \<open>path, file type, \<open>FTW_\<close> code, depth\<close>

type_synonym 'c ftw_func = "string \<Rightarrow> ftype \<Rightarrow> nat \<Rightarrow> nat \<Rightarrow> 'c \<Rightarrow> 'c \<times> int"

text \<open>
  The calls of a pre-order walk; \<open>join\<close> makes the path of an entry from the path of its
  directory, \<open>junk\<close> is the unset \<open>statbuf\<close> after a failed \<open>lstat\<close>.
\<close>

fun calls :: "ftype \<Rightarrow> (string \<Rightarrow> string \<Rightarrow> string) \<Rightarrow> string \<Rightarrow> fstree \<Rightarrow> nat \<Rightarrow> ftw_call list"
  and calls_in :: "ftype \<Rightarrow> (string \<Rightarrow> string \<Rightarrow> string) \<Rightarrow> string \<Rightarrow> (string \<times> fstree) list \<Rightarrow> nat \<Rightarrow>
    ftw_call list" where
  "calls junk join p (Leaf k) d = [(p, k, FTW_F, d)]"
| "calls junk join p Gone d = [(p, junk, FTW_NS, d)]"
| "calls junk join p Locked d = [(p, S_IFDIR, FTW_D, d), (p @ ''/'', S_IFDIR, FTW_DNR, d)]"
| "calls junk join p (Dir es) d = (p, S_IFDIR, FTW_D, d) # calls_in junk join p es (d + 1)"
| "calls_in junk join p [] d = []"
| "calls_in junk join p ((n, t) # es) d =
     calls junk join (join p n) t d @ calls_in junk join p es d"

fun run_calls :: "'c ftw_func \<Rightarrow> ftw_call list \<Rightarrow> 'c \<Rightarrow> 'c \<times> int" where
  \<comment> \<open>make the calls in order until one returns a non-zero value\<close>
  "run_calls func [] c = (c, 0)"
| "run_calls func ((p, k, ty, d) # cs) c =
     (case func p k ty d c of (c', ret) \<Rightarrow> if ret \<noteq> 0 then (c', ret) else run_calls func cs c')"

lemma run_calls_append:
  "run_calls func (xs @ ys) c =
     (case run_calls func xs c of (c', ret) \<Rightarrow> if ret \<noteq> 0 then (c', ret) else run_calls func ys c')"
  by (induction func xs c rule: run_calls.induct) (auto split: prod.split)

fun height :: "fstree \<Rightarrow> nat"
  and height_in :: "(string \<times> fstree) list \<Rightarrow> nat" where
  "height (Leaf k) = 0"
| "height Gone = 0"
| "height Locked = 0"
| "height (Dir es) = Suc (height_in es)"
| "height_in [] = 0"
| "height_in ((n, t) # es) = max (height t) (height_in es)"

definition dot_entry :: "string \<Rightarrow> bool" where
  "dot_entry n \<longleftrightarrow> n = ''.'' \<or> n = ''..''"

definition entry_name :: "string \<Rightarrow> bool" where
  \<comment> \<open>what a directory entry can be called\<close>
  "entry_name n \<longleftrightarrow> n \<noteq> [] \<and> \<not> dot_entry n \<and> nul_free n \<and> CHR ''/'' \<notin> set n \<and> length n \<le> NAME_MAX"

section \<open>What the callback counts\<close>

fun count_kind :: "ftype \<Rightarrow> fstree \<Rightarrow> nat"
  and count_kind_in :: "ftype \<Rightarrow> (string \<times> fstree) list \<Rightarrow> nat" where
  "count_kind k (Leaf k') = (if k = k' then 1 else 0)"
| "count_kind k Gone = 0"
| "count_kind k Locked = (if k = S_IFDIR then 1 else 0)"
| "count_kind k (Dir es) = (if k = S_IFDIR then 1 else 0) + count_kind_in k es"
| "count_kind_in k [] = 0"
| "count_kind_in k ((n, t) # es) = count_kind k t + count_kind_in k es"

fun proper_tree :: "fstree \<Rightarrow> bool"
  and proper_in :: "(string \<times> fstree) list \<Rightarrow> bool" where
  \<comment> \<open>a \<open>Leaf\<close> is never a directory\<close>
  "proper_tree (Leaf k) \<longleftrightarrow> k \<noteq> S_IFDIR"
| "proper_tree Gone \<longleftrightarrow> True"
| "proper_tree Locked \<longleftrightarrow> True"
| "proper_tree (Dir es) \<longleftrightarrow> proper_in es"
| "proper_in [] \<longleftrightarrow> True"
| "proper_in ((n, t) # es) \<longleftrightarrow> proper_tree t \<and> proper_in es"

definition tally_adds :: "(ftype \<Rightarrow> nat) \<Rightarrow> ftw_tally \<Rightarrow> ftw_tally \<Rightarrow> bool" where
  \<comment> \<open>every counter has grown by the number of nodes of its type\<close>
  "tally_adds f c c' \<longleftrightarrow>
     nreg c' = nreg c + int (f S_IFREG) \<and> ndir c' = ndir c + int (f S_IFDIR) \<and>
     nblk c' = nblk c + int (f S_IFBLK) \<and> nchr c' = nchr c + int (f S_IFCHR) \<and>
     nfifo c' = nfifo c + int (f S_IFIFO) \<and> nslink c' = nslink c + int (f S_IFLNK) \<and>
     nsock c' = nsock c + int (f S_IFSOCK)"

lemmas ftw_codes = FTW_F_def FTW_D_def FTW_DNR_def FTW_NS_def

lemma tally_adds_zero: "tally_adds (\<lambda>k. 0) c c"
  by (simp add: tally_adds_def)

lemma tally_adds_add:
  "tally_adds f c c1 \<Longrightarrow> tally_adds g c1 c2 \<Longrightarrow> tally_adds (\<lambda>k. f k + g k) c c2"
  by (simp add: tally_adds_def)

lemma myfunc_ret [simp]: "snd (myfunc_from lo p k ty d c) = 0"
  by (simp add: myfunc_from_def Let_def)

lemma myfunc_file:
  "k \<noteq> S_IFDIR \<Longrightarrow>
     tally_adds (\<lambda>j. if j = k then 1 else 0) c (fst (myfunc_from lo p k FTW_F d c))"
  by (cases k) (simp_all add: myfunc_from_def Let_def tally_adds_def count_file_def put_out_def)

lemma myfunc_dir:
  "tally_adds (\<lambda>j. if j = S_IFDIR then 1 else 0) c (fst (myfunc_from lo p k FTW_D d c))"
  by (simp add: myfunc_from_def Let_def tally_adds_def put_out_def ftw_codes)

lemma myfunc_dnr: "tally_adds (\<lambda>j. 0) c (fst (myfunc_from lo p k FTW_DNR d c))"
  by (simp add: myfunc_from_def Let_def tally_adds_def put_out_def ftw_codes)

lemma myfunc_ns: "tally_adds (\<lambda>j. 0) c (fst (myfunc_from lo p k FTW_NS d c))"
  by (simp add: myfunc_from_def Let_def tally_adds_def put_out_def ftw_codes)

lemma run_myfunc_ret: "snd (run_calls (myfunc_from lo) cs c) = 0"
  by (induction "myfunc_from lo" cs c rule: run_calls.induct)
     (auto split: prod.split simp: prod_eq_iff)

lemma run_myfunc_append:
  "fst (run_calls (myfunc_from lo) (xs @ ys) c) =
     fst (run_calls (myfunc_from lo) ys (fst (run_calls (myfunc_from lo) xs c)))"
  using run_myfunc_ret [of lo xs c] by (auto simp: run_calls_append split: prod.split)

lemma run_myfunc_single:
  "fst (run_calls (myfunc_from lo) ((p, k, ty, d) # cs) c) =
     fst (run_calls (myfunc_from lo) cs (fst (myfunc_from lo p k ty d c)))"
  using myfunc_ret [of lo p k ty d c] by (auto simp del: myfunc_ret split: prod.split)

lemma run_myfunc_counts:
  "proper_tree t \<Longrightarrow>
     tally_adds (\<lambda>k. count_kind k t) c (fst (run_calls (myfunc_from lo) (calls junk join p t d) c))"
  "proper_in es \<Longrightarrow>
     tally_adds (\<lambda>k. count_kind_in k es) c
       (fst (run_calls (myfunc_from lo) (calls_in junk join p es d) c))"
proof (induction junk join p t d and junk join p es d arbitrary: c and c rule: calls_calls_in.induct)
  case (1 junk join p k d)
  then show ?case
    using myfunc_file [of k c lo p d] by (simp only: calls.simps run_myfunc_single) simp
next
  case (2 junk join p d)
  then show ?case
    using myfunc_ns [of c lo p junk d] by (simp only: calls.simps run_myfunc_single) simp
next
  case (3 junk join p d)
  then show ?case
    using tally_adds_add [OF myfunc_dir [of c lo p S_IFDIR d] myfunc_dnr [of _ lo "p @ ''/''" S_IFDIR d]]
    by (simp only: calls.simps run_myfunc_single) simp
next
  case (4 junk join p es d)
  then show ?case
    using tally_adds_add [OF myfunc_dir [of c lo p S_IFDIR d]]
    by (simp only: calls.simps run_myfunc_single) simp
next
  case (5 junk join p d)
  then show ?case by (simp add: tally_adds_zero)
next
  case (6 junk join p n t es d)
  then show ?case
    by (simp only: calls_in.simps run_myfunc_append)
       (auto intro!: tally_adds_add [of _ c])
qed

section \<open>Growing and filling the path buffer\<close>

definition grow_path :: "alloc_env \<Rightarrow> path_buf \<Rightarrow> nat \<Rightarrow> halt + path_buf" where
  \<comment> \<open>\<open>if (n + NAME_MAX + 2 > pathlen)\<close>: double the buffer, once\<close>
  "grow_path env m n =
     (if n + NAME_MAX + 2 > pathlen m
      then (case c_realloc env (fullpath m) (pathlen m * 2) of
              None \<Rightarrow> Inl (Exited 1)
            | Some b \<Rightarrow> Inr \<lparr>fullpath = b, pathlen = pathlen m * 2\<rparr>)
      else Inr m)"

definition start_path :: "alloc_env \<Rightarrow> string \<Rightarrow> path_buf \<Rightarrow> halt + path_buf" where
  \<comment> \<open>the rest of \<open>myftw\<close> before the walk: fit the buffer to the root path and copy it\<close>
  "start_path env pathname m =
     rbind (if pathlen m \<le> length pathname
            then (case c_realloc env (fullpath m) (length pathname * 2) of
                    None \<Rightarrow> Inl (Exited 1)
                  | Some b \<Rightarrow> Inr \<lparr>fullpath = b, pathlen = length pathname * 2\<rparr>)
            else Inr m) (\<lambda>m1.
     rbind (checked (c_strcpy (fullpath m1) 0 pathname)) (\<lambda>b. Inr (m1\<lparr>fullpath := b\<rparr>)))"

definition buf_path :: "path_buf \<Rightarrow> string \<Rightarrow> bool" where
  \<comment> \<open>the buffer is as long as \<open>pathlen\<close> says and holds the C string \<open>p\<close>\<close>
  "buf_path m p \<longleftrightarrow> length (fullpath m) = pathlen m \<and> nul_free p \<and>
     length p < pathlen m \<and> take (Suc (length p)) (fullpath m) = p @ [nul]"

lemma buf_path_string: "buf_path m p \<Longrightarrow> c_string (fullpath m) 0 = Inr p"
proof -
  assume m: "buf_path m p"
  then have "fullpath m = p @ nul # drop (Suc (length p)) (fullpath m)"
    by (metis append.assoc append_Cons append_Nil append_take_drop_id buf_path_def)
  then have "c_string (fullpath m) 0 = c_string (p @ nul # drop (Suc (length p)) (fullpath m)) 0"
    by simp
  also have "\<dots> = Inr p"
    using m by (simp add: c_string_def terminated_def cstr_def takeWhile_nul_free buf_path_def)
  finally show ?thesis .
qed

lemma buf_path_slash:
  assumes "buf_path m p" "length p + 2 \<le> pathlen m"
  shows "\<exists>b1 b2. mem_put (fullpath m) (length p) ''/'' = Inr b1 \<and>
     mem_put b1 (length p + 1) [nul] = Inr b2 \<and> buf_path (m\<lparr>fullpath := b2\<rparr>) (p @ ''/'')"
proof -
  have "take (length p) (fullpath m) = p"
    using assms by (metis append_eq_conv_conj buf_path_def lessI take_take min.absorb1 less_imp_le)
  then show ?thesis
    using assms by (auto simp: buf_path_def c_simps min_def)
qed

lemma buf_path_copy:
  assumes "length (fullpath m) = pathlen m" "nul_free q" "nul_free d"
    and "take (length q) (fullpath m) = q" "length q + length d + 1 \<le> pathlen m"
  shows "\<exists>b. c_strcpy (fullpath m) (length q) d = Inr b \<and> buf_path (m\<lparr>fullpath := b\<rparr>) (q @ d)"
  using assms by (auto simp: buf_path_def c_simps c_strcpy_def)

lemma buf_path_cut:
  assumes "length (fullpath m) = pathlen m" "nul_free p"
    and "take (Suc (length p)) (fullpath m) = p @ ''/''" "Suc (length p) \<le> pathlen m"
  shows "\<exists>b. mem_put (fullpath m) (length p) [nul] = Inr b \<and> buf_path (m\<lparr>fullpath := b\<rparr>) p"
proof -
  have "take (length p) (fullpath m) = p"
    using assms(3) by (metis append_eq_conv_conj lessI take_take min.absorb1 less_imp_le)
  then show ?thesis
    using assms by (auto simp: buf_path_def c_simps)
qed

lemma grow_path_len:
  assumes "buf_path m p" "\<And>n. realloc_ok env n"
  shows "\<exists>m1. grow_path env m (length p) = Inr m1 \<and> buf_path m1 p \<and>
     pathlen m1 = (if length p + NAME_MAX + 2 > pathlen m then 2 * pathlen m else pathlen m)"
proof (cases "length p + NAME_MAX + 2 > pathlen m")
  case True
  have "0 < pathlen m" using assms by (simp add: buf_path_def)
  then show ?thesis
    using True assms by (auto simp: grow_path_def c_realloc_def buf_path_def)
next
  case False
  then show ?thesis using assms by (auto simp: grow_path_def)
qed

lemma grow_path_ok:
  assumes "buf_path m p" "\<And>n. realloc_ok env n" "length p + NAME_MAX + 2 \<le> 2 * pathlen m"
  shows "\<exists>m1. grow_path env m (length p) = Inr m1 \<and> buf_path m1 p \<and>
     length p + NAME_MAX + 2 \<le> pathlen m1 \<and> pathlen m \<le> pathlen m1"
  using grow_path_len [OF assms(1,2)] assms(3) by (auto split: if_splits)

end
