(* ===== verification/Ftw_Nochdir.thy ===== *)
theory Ftw_Nochdir
  imports Ftw
begin

text \<open>
  The walker of \<open>lab_02/ftw/nochdir.c\<close>: it keeps the whole path of the current entry in one
  heap buffer, appends to it on the way down and cuts it back on the way up. The operating
  system (\<open>lstat\<close>, \<open>opendir\<close> with the names \<open>readdir\<close> returns until NULL, \<open>closedir\<close>,
  the allocator) is a record of functions of the path. The recursion is bounded by a fuel
  argument; \<open>nochdir_walks\<close> shows that any fuel above the height of the tree is enough.
\<close>

section \<open>The program\<close>

record ftw_os =
  os_alloc :: alloc_env
  os_lstat :: "string \<Rightarrow> ftype option"
  os_opendir :: "string \<Rightarrow> string list option"
  os_closedir :: "string \<Rightarrow> bool"
  stat_junk :: ftype

function (sequential)
  dopath :: "ftw_os \<Rightarrow> 'c ftw_func \<Rightarrow> nat \<Rightarrow> nat \<Rightarrow> path_buf \<times> 'c \<Rightarrow> halt + (path_buf \<times> 'c \<times> int)" and
  read_entries :: "ftw_os \<Rightarrow> 'c ftw_func \<Rightarrow> nat \<Rightarrow> nat \<Rightarrow> nat \<Rightarrow> string list \<Rightarrow> path_buf \<times> 'c \<times> int \<Rightarrow>
    halt + (path_buf \<times> 'c \<times> int)" where
  "dopath os func 0 depth s = Inl No_fuel"
| "dopath os func (Suc fuel) depth (m, c) =
     rbind (checked (c_string (fullpath m) 0)) (\<lambda>path.
       case os_lstat os path of
         None \<Rightarrow> Inr (m, func path (stat_junk os) FTW_NS depth c)
       | Some k \<Rightarrow>
           if k \<noteq> S_IFDIR then Inr (m, func path k FTW_F depth c)
           else case func path k FTW_D depth c of (c1, ret) \<Rightarrow>
             if ret \<noteq> 0 then Inr (m, c1, ret)
             else
               let n = length path in
               rbind (grow_path (os_alloc os) m n) (\<lambda>m1.
               rbind (checked (mem_put (fullpath m1) n ''/'')) (\<lambda>b1.
               rbind (checked (mem_put b1 (n + 1) [nul])) (\<lambda>b2.
               rbind (checked (c_string b2 0)) (\<lambda>dirpath.
                 case os_opendir os dirpath of
                   None \<Rightarrow> Inr (m1\<lparr>fullpath := b2\<rparr>, func dirpath k FTW_DNR depth c1)
                 | Some names \<Rightarrow>
                     rbind (read_entries os func fuel depth (n + 1) names
                             (m1\<lparr>fullpath := b2\<rparr>, c1, 0)) (\<lambda>(m3, c3, ret3).
                     rbind (checked (mem_put (fullpath m3) (n + 1 - 1) [nul])) (\<lambda>b4.
                       if os_closedir os dirpath then Inr (m3\<lparr>fullpath := b4\<rparr>, c3, ret3)
                       else Inl (Exited 1))))))))"
| "read_entries os func fuel depth n [] s = Inr s"
| "read_entries os func fuel depth n (d # ds) (m, c, ret) =
     (if ret \<noteq> 0 then Inr (m, c, ret)
      else if dot_entry d then read_entries os func fuel depth n ds (m, c, ret)
      else
        rbind (checked (c_strcpy (fullpath m) n d)) (\<lambda>b.
        rbind (dopath os func fuel (depth + 1) (m\<lparr>fullpath := b\<rparr>, c))
          (read_entries os func fuel depth n ds)))"
  by pat_completeness auto
termination
  by (relation "inv_image (less_than <*lex*> less_than)
        (\<lambda>x. case x of
           Inl (os, func, fuel, depth, s) \<Rightarrow> (fuel, 0)
         | Inr (os, func, fuel, depth, n, ds, s) \<Rightarrow> (fuel, Suc (length ds)))") auto

definition myftw ::
  "ftw_os \<Rightarrow> path_conf \<Rightarrow> path_sys \<Rightarrow> 'c ftw_func \<Rightarrow> nat \<Rightarrow> string \<Rightarrow> 'c \<Rightarrow> halt + (path_buf \<times> 'c \<times> int)" where
  \<comment> \<open>the globals \<open>fullpath\<close> and \<open>pathlen\<close> start as NULL and 0\<close>
  "myftw os conf g func fuel pathname c =
     rbind (path_alloc (os_alloc os) conf g) (\<lambda>(g', block, len).
     rbind (start_path (os_alloc os) pathname \<lparr>fullpath = block, pathlen = 0\<rparr>) (\<lambda>m.
       dopath os func fuel 0 (m, c)))"

definition ftw_main_nochdir ::
  "ftw_os \<Rightarrow> path_conf \<Rightarrow> path_sys \<Rightarrow> nat \<Rightarrow> string list \<Rightarrow> halt + (ftw_tally \<times> int)" where
  \<comment> \<open>the tally printed and the status passed to \<open>exit\<close>\<close>
  "ftw_main_nochdir os conf g fuel argv =
     (if length argv \<noteq> 2 then Inl (Exited 1)
      else rbind (myftw os conf g myfunc_nochdir fuel (argv ! 1) ftw_tally0)
             (\<lambda>(m, c, ret). Inr (c, ret)))"

section \<open>A file system that shows a tree\<close>

definition subpath :: "string \<Rightarrow> string \<Rightarrow> string" where
  "subpath p n = p @ ''/'' @ n"

fun fs_at :: "ftw_os \<Rightarrow> string \<Rightarrow> fstree \<Rightarrow> bool"
  and fs_in :: "ftw_os \<Rightarrow> string \<Rightarrow> (string \<times> fstree) list \<Rightarrow> bool" where
  "fs_at os p (Leaf k) \<longleftrightarrow> os_lstat os p = Some k \<and> k \<noteq> S_IFDIR"
| "fs_at os p Gone \<longleftrightarrow> os_lstat os p = None"
| "fs_at os p Locked \<longleftrightarrow> os_lstat os p = Some S_IFDIR \<and> os_opendir os (p @ ''/'') = None"
| "fs_at os p (Dir es) \<longleftrightarrow>
     os_lstat os p = Some S_IFDIR \<and> os_closedir os (p @ ''/'') \<and>
     (case os_opendir os (p @ ''/'') of
        None \<Rightarrow> False
      | Some names \<Rightarrow> filter (\<lambda>n. \<not> dot_entry n) names = map fst es) \<and>
     fs_in os p es"
| "fs_in os p [] \<longleftrightarrow> True"
| "fs_in os p ((n, t) # es) \<longleftrightarrow> entry_name n \<and> fs_at os (subpath p n) t \<and> fs_in os p es"

lemma read_entries_filter:
  "read_entries os func fuel depth n ds s =
     read_entries os func fuel depth n (filter (\<lambda>d. \<not> dot_entry d) ds) s"
proof (induction ds arbitrary: s)
  case Nil
  then show ?case by simp
next
  case (Cons d ds)
  obtain m c ret where s: "s = (m, c, ret)" by (cases s)
  have stop: "ret \<noteq> 0 \<Longrightarrow> read_entries os func fuel depth n xs (m, c, ret) = Inr (m, c, ret)" for xs
    by (cases xs) auto
  show ?case
    using Cons.IH stop by (auto simp: s intro!: rbind_cong)
qed

section \<open>The walk makes the calls of the reference\<close>

definition kept :: "path_buf \<Rightarrow> path_buf \<Rightarrow> string \<Rightarrow> bool" where
  \<comment> \<open>after a walk the buffer has only grown and still starts with \<open>q\<close>\<close>
  "kept m m' q \<longleftrightarrow> length (fullpath m') = pathlen m' \<and> pathlen m \<le> pathlen m' \<and>
     take (length q) (fullpath m') = q"

lemma kept_refl: "buf_path m p \<Longrightarrow> kept m m p"
  by (metis append_eq_conv_conj buf_path_def kept_def le_refl lessI less_imp_le min.absorb1 take_take)

lemma kept_pathlen: "kept m m' q \<Longrightarrow> pathlen m \<le> pathlen m'"
  by (simp add: kept_def)

lemma kept_prefix: "kept m m' (q @ r) \<Longrightarrow> kept m m' q"
  by (simp add: kept_def) (metis append_eq_conv_conj length_append min.absorb1 le_add1 take_take)

lemma run_calls_single: "run_calls func [(p, k, ty, d)] c = func p k ty d c"
  by (simp split: prod.split)

lemma enter_dir:
  assumes "buf_path m p" "\<And>n. realloc_ok env n" "length p + NAME_MAX + 2 \<le> 2 * pathlen m"
  obtains m1 b1 b2 where "grow_path env m (length p) = Inr m1"
    "mem_put (fullpath m1) (length p) ''/'' = Inr b1" "mem_put b1 (length p + 1) [nul] = Inr b2"
    "c_string b2 0 = Inr (p @ ''/'')" "buf_path (m1\<lparr>fullpath := b2\<rparr>) (p @ ''/'')"
    "length p + NAME_MAX + 2 \<le> pathlen m1" "pathlen m \<le> pathlen m1"
proof -
  obtain m1 where m1: "grow_path env m (length p) = Inr m1" "buf_path m1 p"
      "length p + NAME_MAX + 2 \<le> pathlen m1" "pathlen m \<le> pathlen m1"
    using grow_path_ok [OF assms] by blast
  then obtain b1 b2 where "mem_put (fullpath m1) (length p) ''/'' = Inr b1"
      "mem_put b1 (length p + 1) [nul] = Inr b2" "buf_path (m1\<lparr>fullpath := b2\<rparr>) (p @ ''/'')"
    using buf_path_slash [OF m1(2)] by auto
  then show ?thesis using that m1 buf_path_string [of "m1\<lparr>fullpath := b2\<rparr>"] by simp
qed

lemma nochdir_walk:
  shows "fs_at os p t \<Longrightarrow> \<forall>n. realloc_ok (os_alloc os) n \<Longrightarrow> buf_path m p \<Longrightarrow>
      length p + NAME_MAX + 2 \<le> 2 * pathlen m \<Longrightarrow> height t < fuel \<Longrightarrow>
      \<exists>m'. dopath os func fuel d (m, c) =
             Inr (m', run_calls func (calls (stat_junk os) subpath p t d) c) \<and> kept m m' p"
    and "fs_in os p es \<Longrightarrow> \<forall>n. realloc_ok (os_alloc os) n \<Longrightarrow> height_in es < fuel \<Longrightarrow>
      nul_free p \<Longrightarrow> length (fullpath m) = pathlen m \<Longrightarrow>
      take (Suc (length p)) (fullpath m) = p @ ''/'' \<Longrightarrow> length p + NAME_MAX + 2 \<le> pathlen m \<Longrightarrow>
      \<exists>m'. read_entries os func fuel d (length p + 1) (map fst es) (m, c, 0) =
             Inr (m', run_calls func (calls_in (stat_junk os) subpath p es (d + 1)) c) \<and>
           kept m m' (p @ ''/'')"
proof (induction os p t and os p es arbitrary: fuel d m c and fuel d m c rule: fs_at_fs_in.induct)
  case (1 os p k)
  then show ?case
    using buf_path_string kept_refl
    by (cases fuel) (auto simp: run_calls_single simp del: run_calls.simps)
next
  case (2 os p)
  then show ?case
    using buf_path_string kept_refl
    by (cases fuel) (auto simp: run_calls_single simp del: run_calls.simps)
next
  case (3 os p)
  then obtain f where fuel: "fuel = Suc f" by (cases fuel) auto
  obtain m1 b1 b2 where e: "grow_path (os_alloc os) m (length p) = Inr m1"
    "mem_put (fullpath m1) (length p) ''/'' = Inr b1" "mem_put b1 (length p + 1) [nul] = Inr b2"
    "c_string b2 0 = Inr (p @ ''/'')" "buf_path (m1\<lparr>fullpath := b2\<rparr>) (p @ ''/'')"
    "pathlen m \<le> pathlen m1"
    using enter_dir [of m p "os_alloc os"] 3 by metis
  have "kept m (m1\<lparr>fullpath := b2\<rparr>) p"
    using kept_prefix [OF kept_refl [OF e(5)]] e(6) by (simp add: kept_def)
  then show ?case
    using 3 e kept_refl buf_path_string [of m p]
    by (cases "func p S_IFDIR FTW_D d c") (auto simp: fuel split: prod.split)
next
  case (4 os p es)
  then obtain f where fuel: "fuel = Suc f" by (cases fuel) auto
  obtain m1 b1 b2 where e: "grow_path (os_alloc os) m (length p) = Inr m1"
    "mem_put (fullpath m1) (length p) ''/'' = Inr b1" "mem_put b1 (length p + 1) [nul] = Inr b2"
    "c_string b2 0 = Inr (p @ ''/'')" "buf_path (m1\<lparr>fullpath := b2\<rparr>) (p @ ''/'')"
    "length p + NAME_MAX + 2 \<le> pathlen m1" "pathlen m \<le> pathlen m1"
    using enter_dir [of m p "os_alloc os"] "4.prems" by metis
  obtain names where names: "os_opendir os (p @ ''/'') = Some names"
      "filter (\<lambda>n. \<not> dot_entry n) names = map fst es"
    using "4.prems" by (auto split: option.splits)
  obtain c1 ret where call: "func p S_IFDIR FTW_D d c = (c1, ret)"
    by (cases "func p S_IFDIR FTW_D d c")
  let ?m2 = "m1\<lparr>fullpath := b2\<rparr>"
  have nf: "nul_free p" using "4.prems" by (simp add: buf_path_def)
  have len: "length b2 = pathlen m1" "take (Suc (length p)) b2 = p @ ''/''"
    using e(5) kept_refl [OF e(5)] by (auto simp: buf_path_def kept_def)
  have "\<exists>m3. read_entries os func f d (length p + 1) (map fst es) (?m2, c1, 0) =
      Inr (m3, run_calls func (calls_in (stat_junk os) subpath p es (d + 1)) c1) \<and>
      kept ?m2 m3 (p @ ''/'')"
    by (rule "4.IH") (use "4.prems" nf len e(6) fuel in auto)
  then obtain m3 where m3: "read_entries os func f d (length p + 1) (map fst es) (?m2, c1, 0) =
      Inr (m3, run_calls func (calls_in (stat_junk os) subpath p es (d + 1)) c1)"
      "kept ?m2 m3 (p @ ''/'')" by blast
  obtain b4 where b4: "mem_put (fullpath m3) (length p) [nul] = Inr b4"
      "buf_path (m3\<lparr>fullpath := b4\<rparr>) p"
    using buf_path_cut [of m3 p] m3(2) nf e(6) by (auto simp: kept_def NAME_MAX_def)
  have "kept m (m3\<lparr>fullpath := b4\<rparr>) p"
    using kept_refl [OF b4(2)] m3(2) e(7) by (simp add: kept_def)
  then show ?case
    using "4.prems" e(1-4) kept_refl buf_path_string [of m p] names m3 b4 call
    by (auto simp: fuel read_entries_filter [of os func f d _ names] split: prod.split)
next
  case (5 os p)
  then show ?case by (simp add: kept_def)
next
  case (6 os p n t es)
  have n: "nul_free n" "length n \<le> NAME_MAX" "\<not> dot_entry n"
    using "6.prems" by (auto simp: entry_name_def)
  obtain b where b: "c_strcpy (fullpath m) (length p + 1) n = Inr b"
      "buf_path (m\<lparr>fullpath := b\<rparr>) (subpath p n)"
    using buf_path_copy [of m "p @ ''/''" n] "6.prems" n by (auto simp: subpath_def)
  have "\<exists>m1. dopath os func fuel (d + 1) (m\<lparr>fullpath := b\<rparr>, c) =
      Inr (m1, run_calls func (calls (stat_junk os) subpath (subpath p n) t (d + 1)) c) \<and>
      kept (m\<lparr>fullpath := b\<rparr>) m1 (subpath p n)"
    by (rule "6.IH"(1)) (use "6.prems" n b(2) in \<open>auto simp: subpath_def NAME_MAX_def\<close>)
  then obtain m1 where m1: "dopath os func fuel (d + 1) (m\<lparr>fullpath := b\<rparr>, c) =
      Inr (m1, run_calls func (calls (stat_junk os) subpath (subpath p n) t (d + 1)) c)"
      "kept (m\<lparr>fullpath := b\<rparr>) m1 (subpath p n)" by blast
  have k1: "kept m m1 (p @ ''/'')"
    using kept_prefix [of "m\<lparr>fullpath := b\<rparr>" m1 "p @ ''/''" n] m1(2)
    by (simp add: subpath_def kept_def)
  obtain c1 ret where call:
    "run_calls func (calls (stat_junk os) subpath (subpath p n) t (d + 1)) c = (c1, ret)"
    by (cases "run_calls func (calls (stat_junk os) subpath (subpath p n) t (d + 1)) c")
  show ?case
  proof (cases "ret = 0")
    case True
    have "\<exists>m2. read_entries os func fuel d (length p + 1) (map fst es) (m1, c1, 0) =
        Inr (m2, run_calls func (calls_in (stat_junk os) subpath p es (d + 1)) c1) \<and>
        kept m1 m2 (p @ ''/'')"
      by (rule "6.IH"(2)) (use "6.prems" k1 in \<open>auto simp: kept_def\<close>)
    then show ?thesis
      using True n b m1 call k1 by (auto simp: run_calls_append kept_def)
  next
    case False
    moreover have "read_entries os func fuel d (length p + 1) xs (m1, c1, ret) = Inr (m1, c1, ret)" for xs
      using False by (cases xs) auto
    ultimately show ?thesis
      using n b m1 call k1 by (auto simp: run_calls_append)
  qed
qed

section \<open>Starting the walk\<close>

lemma path_alloc_ok:
  assumes "pathmax g \<noteq> 0" "\<forall>n. malloc_ok env n"
  shows "\<exists>g' b n. path_alloc env conf g = Inr (g', b, n)"
  using assms by (auto simp: path_alloc_def Let_def)

lemma start_path_ok:
  assumes "\<forall>n. realloc_ok env n" "nul_free p" "p \<noteq> []"
  shows "\<exists>m. start_path env p \<lparr>fullpath = block, pathlen = 0\<rparr> = Inr m \<and> buf_path m p \<and>
     pathlen m = 2 * length p"
proof -
  let ?n = "length p * 2"
  define B where "B = take ?n block @ replicate (?n - length block) (mem_junk env)"
  have B: "length B = ?n" by (simp add: B_def)
  obtain k where p: "length p = Suc k" using assms by (cases p) auto
  then have "c_strcpy B 0 p = Inr (p @ nul # drop (Suc (length p)) B)"
    using B by (simp add: c_strcpy_def mem_put_def)
  moreover have "c_realloc env block ?n = Some B"
    using assms p by (simp add: c_realloc_def B_def)
  ultimately show ?thesis
    using B p assms by (simp add: start_path_def buf_path_def)
qed

lemma fs_at_proper:
  "fs_at os p t \<Longrightarrow> proper_tree t" "fs_in os p es \<Longrightarrow> proper_in es"
  by (induction os p t and os p es rule: fs_at_fs_in.induct) auto

text \<open>A small file system for the witnesses: every path is a directory but those ending in \<open>x\<close>.\<close>

definition demo_alloc :: alloc_env where
  "demo_alloc = \<lparr>mem_junk = CHR ''?'', realloc_ok = (\<lambda>n. True), malloc_ok = (\<lambda>n. True)\<rparr>"

definition demo_os :: "string list \<Rightarrow> ftw_os" where
  "demo_os names =
     \<lparr>os_alloc = demo_alloc,
      os_lstat = (\<lambda>q. if last q = CHR ''x'' then Some S_IFREG else Some S_IFDIR),
      os_opendir = (\<lambda>q. Some names), os_closedir = (\<lambda>q. True), stat_junk = S_IFNONE\<rparr>"

definition demo_sys :: path_sys where
  "demo_sys = \<lparr>posix_version = 0, xsi_version = 0, pathmax = 4096\<rparr>"

definition demo_conf :: path_conf where
  "demo_conf = \<lparr>sc_version = 200809, sc_xopen_version = 700, pc_path_max = Inr 4096\<rparr>"

definition long_root :: string where
  "long_root = CHR ''/'' # replicate 85 CHR ''a''"

lemma demo_simps:
  "stat_junk (demo_os names) = S_IFNONE"
  "realloc_ok (os_alloc (demo_os names)) n" "malloc_ok (os_alloc (demo_os names)) n"
  "pathmax demo_sys \<noteq> 0"
  by (simp_all add: demo_os_def demo_alloc_def demo_sys_def)

lemma long_root_facts: "nul_free long_root" "length long_root = 86"
  by (simp_all add: long_root_def nul_free_def)

lemma demo_tree: "fs_at (demo_os [''.'', ''..'', ''x'']) long_root (Dir [(''x'', Leaf S_IFREG)])"
  by (simp add: demo_os_def long_root_def subpath_def entry_name_def dot_entry_def NAME_MAX_def)

lemma myftw_ok:
  assumes "fs_at os p t" "nul_free p" "86 \<le> length p" "height t < fuel"
    and "\<forall>n. realloc_ok (os_alloc os) n" "\<forall>n. malloc_ok (os_alloc os) n" "pathmax g \<noteq> 0"
  shows "\<exists>m. myftw os conf g func fuel p c =
     Inr (m, run_calls func (calls (stat_junk os) subpath p t 0) c)"
proof -
  obtain g' b n where alloc: "path_alloc (os_alloc os) conf g = Inr (g', b, n)"
    using path_alloc_ok [of g "os_alloc os" conf] assms by blast
  have "p \<noteq> []" using assms by auto
  then obtain m where m: "start_path (os_alloc os) p \<lparr>fullpath = b, pathlen = 0\<rparr> = Inr m"
      "buf_path m p" "pathlen m = 2 * length p"
    using start_path_ok [of "os_alloc os" p b] assms by blast
  have "length p + NAME_MAX + 2 \<le> 2 * pathlen m"
    using assms m by (simp add: NAME_MAX_def)
  then obtain m' where "dopath os func fuel 0 (m, c) =
      Inr (m', run_calls func (calls (stat_junk os) subpath p t 0) c)"
    using nochdir_walk(1) [of os p t m fuel func 0 c] assms m by auto
  with alloc m(1) show ?thesis by (simp add: myftw_def)
qed

section \<open>Properties\<close>

text \<open>
  C1: correctness of the walker on root paths of at least 86 bytes. Whatever the tree, the
  callback and the content of fresh memory, the program never writes outside the path
  buffer, its recursion ends (any fuel above the height of the tree is enough), and it makes
  exactly the calls of the pre-order walk of the tree, in order, with the full path, type
  code and depth of each entry, stopping at the first call that returns non-zero.
\<close>

theorem nochdir_walks:
  assumes "fs_at os p t" "nul_free p" "86 \<le> length p" "height t < fuel"
    and "\<forall>n. realloc_ok (os_alloc os) n" "\<forall>n. malloc_ok (os_alloc os) n" "pathmax g \<noteq> 0"
  shows "\<exists>m. myftw os conf g func fuel p c =
     Inr (m, run_calls func (calls (stat_junk os) subpath p t 0) c)"
  using assms by (rule myftw_ok)

theorem nochdir_walks_witness:
  "\<exists>m. myftw (demo_os [''.'', ''..'', ''x'']) demo_conf demo_sys myfunc_nochdir 2 long_root ftw_tally0 =
     Inr (m, run_calls myfunc_nochdir
       (calls S_IFNONE subpath long_root (Dir [(''x'', Leaf S_IFREG)]) 0) ftw_tally0)"
  using nochdir_walks [OF demo_tree long_root_facts(1), of 2 demo_sys demo_conf myfunc_nochdir ftw_tally0]
  by (simp add: long_root_facts demo_simps del: calls.simps run_calls.simps)

text \<open>
  C24: the counters. On such a run \<open>main\<close> exits with status 0 and every counter equals the
  number of entries of its type in the tree; directories that cannot be opened count as
  directories, entries whose \<open>lstat\<close> fails count nowhere.
\<close>

theorem nochdir_counts:
  assumes "fs_at os p t" "nul_free p" "86 \<le> length p" "height t < fuel"
    and "\<forall>n. realloc_ok (os_alloc os) n" "\<forall>n. malloc_ok (os_alloc os) n" "pathmax g \<noteq> 0"
  shows "\<exists>c. ftw_main_nochdir os conf g fuel [prog, p] = Inr (c, 0) \<and>
     tally_adds (\<lambda>k. count_kind k t) ftw_tally0 c"
proof -
  let ?r = "run_calls myfunc_nochdir (calls (stat_junk os) subpath p t 0) ftw_tally0"
  have "\<exists>m. myftw os conf g myfunc_nochdir fuel p ftw_tally0 = Inr (m, ?r)"
    using assms by (rule myftw_ok)
  moreover have "snd ?r = 0" "tally_adds (\<lambda>k. count_kind k t) ftw_tally0 (fst ?r)"
    using run_myfunc_ret run_myfunc_counts(1) [OF fs_at_proper(1) [OF assms(1)]]
    by (simp_all add: myfunc_nochdir_def)
  ultimately show ?thesis
    by (cases ?r) (auto simp: ftw_main_nochdir_def)
qed

theorem nochdir_counts_witness:
  "\<exists>c. ftw_main_nochdir (demo_os [''.'', ''..'', ''x'']) demo_conf demo_sys 2 [''ftw'', long_root] = Inr (c, 0) \<and>
     tally_adds (\<lambda>k. count_kind k (Dir [(''x'', Leaf S_IFREG)])) ftw_tally0 c"
  by (rule nochdir_counts [OF demo_tree long_root_facts(1)]) (simp_all add: long_root_facts demo_simps)

text \<open>
  C21: the heap overflow on shorter root paths. \<open>pathlen\<close> starts at 0, so \<open>myftw\<close> shrinks
  the buffer to twice the root path, and \<open>dopath\<close> doubles it once although
  \<open>n + NAME_MAX + 2\<close> may be far larger: when the first entry of the root directory has a
  name \<open>d\<close> with \<open>3 * strlen(root) < strlen(d) + 2\<close>, the \<open>strcpy\<close> of \<open>d\<close> writes past the
  end of the block. With the longest name, 255 bytes, that is every root below 86 bytes, so
  the bound of the previous theorems is exact.
\<close>

theorem nochdir_overflow:
  assumes "os_lstat os p = Some S_IFDIR" "os_opendir os (p @ ''/'') = Some names"
    and "filter (\<lambda>n. \<not> dot_entry n) names = d # ds" "snd (func p S_IFDIR FTW_D 0 c) = 0"
    and "nul_free p" "p \<noteq> []" "length d \<le> NAME_MAX" "3 * length p < length d + 2"
    and "\<forall>n. realloc_ok (os_alloc os) n" "\<forall>n. malloc_ok (os_alloc os) n" "pathmax g \<noteq> 0"
  shows "myftw os conf g func (Suc fuel) p c = Inl (Faulted Out_Of_Bounds)"
proof -
  obtain g' b n where alloc: "path_alloc (os_alloc os) conf g = Inr (g', b, n)"
    using path_alloc_ok [of g "os_alloc os" conf] assms by blast
  obtain m where m: "start_path (os_alloc os) p \<lparr>fullpath = b, pathlen = 0\<rparr> = Inr m"
      "buf_path m p" "pathlen m = 2 * length p"
    using start_path_ok [of "os_alloc os" p b] assms by blast
  obtain m1 where m1: "grow_path (os_alloc os) m (length p) = Inr m1" "buf_path m1 p"
      "pathlen m1 = 4 * length p"
    using grow_path_len [OF m(2), of "os_alloc os"] assms m(3) by (auto simp: NAME_MAX_def)
  have "length p + 2 \<le> pathlen m1"
    using assms(6) m1(3) by (cases p) auto
  then obtain b1 b2 where b: "mem_put (fullpath m1) (length p) ''/'' = Inr b1"
      "mem_put b1 (length p + 1) [nul] = Inr b2" "buf_path (m1\<lparr>fullpath := b2\<rparr>) (p @ ''/'')"
    using buf_path_slash [OF m1(2)] by auto
  have "c_strcpy b2 (length p + 1) d = Inl Out_Of_Bounds"
    using b(3) m1(3) assms(8) by (simp add: c_strcpy_def mem_put_def buf_path_def)
  moreover have "\<not> dot_entry d"
    using assms(3) by (metis filter_eq_ConsD)
  ultimately show ?thesis
    using assms(1-4) m m1 b buf_path_string [OF m(2)] buf_path_string [OF b(3)]
    by (cases "func p S_IFDIR FTW_D 0 c")
       (simp add: myftw_def alloc read_entries_filter [of os func fuel 0 _ names])
qed

theorem nochdir_overflow_witness:
  "myftw (demo_os [''.'', ''..'', ''course-report.txt'']) demo_conf demo_sys myfunc_nochdir 1 ''/home'' ftw_tally0 =
     Inl (Faulted Out_Of_Bounds)"
  using nochdir_overflow [of "demo_os [''.'', ''..'', ''course-report.txt'']" "''/home''"
      "[''.'', ''..'', ''course-report.txt'']" "''course-report.txt''" "[]" myfunc_nochdir
      ftw_tally0 demo_sys demo_conf 0]
  by (simp add: demo_simps dot_entry_def NAME_MAX_def myfunc_nochdir_def) (simp add: demo_os_def)

end
