(* ===== verification/Ftw_Chdir.thy ===== *)
theory Ftw_Chdir
  imports Ftw Ftw_Nochdir
begin

text \<open>
  The walker of \<open>lab_02/ftw/chdir.c\<close>: it enters every directory with \<open>chdir\<close>, so the
  buffer only ever holds the name of the current entry, and leaves it with \<open>chdir("..")\<close>.
  The operating system is a record of functions of the working directory and a path relative
  to it; the working directory is part of the state.
\<close>

section \<open>The program\<close>

record chdir_os =
  c_alloc :: alloc_env
  c_lstat :: "string \<Rightarrow> string \<Rightarrow> ftype option"
  c_opendir :: "string \<Rightarrow> string \<Rightarrow> string list option"
  c_chdir :: "string \<Rightarrow> string \<Rightarrow> string option"
  c_closedir :: "string \<Rightarrow> string \<Rightarrow> bool"
  c_stat_junk :: ftype

function (sequential)
  dopath_chdir :: "chdir_os \<Rightarrow> 'c ftw_func \<Rightarrow> nat \<Rightarrow> nat \<Rightarrow> path_buf \<times> string \<times> 'c \<Rightarrow>
    halt + (path_buf \<times> string \<times> 'c \<times> int)" and
  visit_entries :: "chdir_os \<Rightarrow> 'c ftw_func \<Rightarrow> nat \<Rightarrow> nat \<Rightarrow> string list \<Rightarrow>
    path_buf \<times> string \<times> 'c \<times> int \<Rightarrow> halt + (path_buf \<times> string \<times> 'c \<times> int)" where
  "dopath_chdir os func 0 depth s = Inl No_fuel"
| "dopath_chdir os func (Suc fuel) depth (m, w, c) =
     rbind (checked (c_string (fullpath m) 0)) (\<lambda>path.
       case c_lstat os w path of
         None \<Rightarrow> Inr (m, w, func path (c_stat_junk os) FTW_NS depth c)
       | Some k \<Rightarrow>
           if k \<noteq> S_IFDIR then Inr (m, w, func path k FTW_F depth c)
           else case func path k FTW_D depth c of (c1, ret) \<Rightarrow>
             if ret \<noteq> 0 then Inr (m, w, c1, ret)
             else
               let n = length path in
               rbind (grow_path (c_alloc os) m n) (\<lambda>m1.
               rbind (checked (mem_put (fullpath m1) n ''/'')) (\<lambda>b1.
               rbind (checked (mem_put b1 (n + 1) [nul])) (\<lambda>b2.
               rbind (checked (c_string b2 0)) (\<lambda>dirpath.
                 case c_opendir os w dirpath of
                   None \<Rightarrow> Inr (m1\<lparr>fullpath := b2\<rparr>, w, func dirpath k FTW_DNR depth c1)
                 | Some names \<Rightarrow>
                     (case c_chdir os w dirpath of
                        None \<Rightarrow> Inl (Exited 1)
                      | Some w1 \<Rightarrow>
                          rbind (visit_entries os func fuel depth names
                                  (m1\<lparr>fullpath := b2\<rparr>, w1, c1, 0)) (\<lambda>(m3, w3, c3, ret3).
                            case c_chdir os w3 ''..'' of
                              None \<Rightarrow> Inl (Exited 1)
                            | Some w4 \<Rightarrow>
                                if c_closedir os w dirpath then Inr (m3, w4, c3, ret3)
                                else Inl (Exited 1))))))))"
| "visit_entries os func fuel depth [] s = Inr s"
| "visit_entries os func fuel depth (d # ds) (m, w, c, ret) =
     (if ret \<noteq> 0 then Inr (m, w, c, ret)
      else if dot_entry d then visit_entries os func fuel depth ds (m, w, c, ret)
      else
        rbind (checked (c_strcpy (fullpath m) 0 d)) (\<lambda>b.
        rbind (dopath_chdir os func fuel (depth + 1) (m\<lparr>fullpath := b\<rparr>, w, c))
          (visit_entries os func fuel depth ds)))"
  by pat_completeness auto
termination
  by (relation "inv_image (less_than <*lex*> less_than)
        (\<lambda>x. case x of
           Inl (os, func, fuel, depth, s) \<Rightarrow> (fuel, 0)
         | Inr (os, func, fuel, depth, ds, s) \<Rightarrow> (fuel, Suc (length ds)))") auto

text \<open>\<open>path_alloc\<close> and the rest of \<open>myftw\<close> are the same text as in \<open>nochdir.c\<close>.\<close>

definition path_alloc_chdir ::
  "alloc_env \<Rightarrow> path_conf \<Rightarrow> path_sys \<Rightarrow> halt + (path_sys \<times> char list \<times> nat)" where
  "path_alloc_chdir = path_alloc"

definition myftw_chdir ::
  "chdir_os \<Rightarrow> path_conf \<Rightarrow> path_sys \<Rightarrow> 'c ftw_func \<Rightarrow> nat \<Rightarrow> string \<Rightarrow> string \<Rightarrow> 'c \<Rightarrow>
    halt + (path_buf \<times> string \<times> 'c \<times> int)" where
  "myftw_chdir os conf g func fuel w pathname c =
     rbind (path_alloc_chdir (c_alloc os) conf g) (\<lambda>(g', block, len).
     rbind (start_path (c_alloc os) pathname \<lparr>fullpath = block, pathlen = 0\<rparr>) (\<lambda>m.
       dopath_chdir os func fuel 0 (m, w, c)))"

definition ftw_main_chdir ::
  "chdir_os \<Rightarrow> path_conf \<Rightarrow> path_sys \<Rightarrow> nat \<Rightarrow> string \<Rightarrow> string list \<Rightarrow> halt + (ftw_tally \<times> int)" where
  \<comment> \<open>prints the root path first\<close>
  "ftw_main_chdir os conf g fuel w argv =
     (if length argv \<noteq> 2 then Inl (Exited 1)
      else rbind (myftw_chdir os conf g myfunc_chdir fuel w (argv ! 1)
                   (put_out (Text (argv ! 1 @ [CHR 0x0A])) ftw_tally0))
             (\<lambda>(m, w', c, ret). Inr (c, ret)))"

section \<open>A file system that shows a tree\<close>

text \<open>
  \<open>cfs_at os w p t home\<close>: seen from the working directory \<open>w\<close>, the path \<open>p\<close> names the
  tree \<open>t\<close>, and \<open>chdir("..")\<close> from the directory it names leads to \<open>home\<close> (\<open>w\<close> itself for
  an entry of \<open>w\<close>).
\<close>

fun cfs_at :: "chdir_os \<Rightarrow> string \<Rightarrow> string \<Rightarrow> fstree \<Rightarrow> string \<Rightarrow> bool"
  and cfs_in :: "chdir_os \<Rightarrow> string \<Rightarrow> (string \<times> fstree) list \<Rightarrow> bool" where
  "cfs_at os w p (Leaf k) home \<longleftrightarrow> c_lstat os w p = Some k \<and> k \<noteq> S_IFDIR"
| "cfs_at os w p Gone home \<longleftrightarrow> c_lstat os w p = None"
| "cfs_at os w p Locked home \<longleftrightarrow>
     c_lstat os w p = Some S_IFDIR \<and> c_opendir os w (p @ ''/'') = None"
| "cfs_at os w p (Dir es) home \<longleftrightarrow>
     c_lstat os w p = Some S_IFDIR \<and> c_closedir os w (p @ ''/'') \<and>
     (case (c_opendir os w (p @ ''/''), c_chdir os w (p @ ''/'')) of
        (Some names, Some w1) \<Rightarrow>
          filter (\<lambda>n. \<not> dot_entry n) names = map fst es \<and> c_chdir os w1 ''..'' = Some home \<and>
          cfs_in os w1 es
      | _ \<Rightarrow> False)"
| "cfs_in os w [] \<longleftrightarrow> True"
| "cfs_in os w ((n, t) # es) \<longleftrightarrow> entry_name n \<and> cfs_at os w n t w \<and> cfs_in os w es"

lemma visit_entries_stop:
  "ret \<noteq> 0 \<Longrightarrow> visit_entries os func fuel depth ds (m, w, c, ret) = Inr (m, w, c, ret)"
  by (cases ds) auto

lemma visit_entries_filter:
  "visit_entries os func fuel depth ds s =
     visit_entries os func fuel depth (filter (\<lambda>d. \<not> dot_entry d) ds) s"
proof (induction ds arbitrary: s)
  case Nil
  then show ?case by simp
next
  case (Cons d ds)
  obtain m w c ret where s: "s = (m, w, c, ret)" by (cases s)
  show ?case
    using Cons.IH by (auto simp: s visit_entries_stop intro!: rbind_cong)
qed

section \<open>The walk makes the calls of the reference\<close>

definition entry_join :: "string \<Rightarrow> string \<Rightarrow> string" where
  "entry_join p n = n"

definition grown :: "path_buf \<Rightarrow> path_buf \<Rightarrow> bool" where
  "grown m m' \<longleftrightarrow> length (fullpath m') = pathlen m' \<and> pathlen m \<le> pathlen m'"

lemma enter_dir_chdir:
  assumes "buf_path m p" "\<And>n. realloc_ok env n" "128 \<le> pathlen m"
  obtains m1 b1 b2 where "grow_path env m (length p) = Inr m1"
    "mem_put (fullpath m1) (length p) ''/'' = Inr b1" "mem_put b1 (length p + 1) [nul] = Inr b2"
    "c_string b2 0 = Inr (p @ ''/'')" "grown m (m1\<lparr>fullpath := b2\<rparr>)" "256 \<le> pathlen m1"
proof -
  obtain m1 where m1: "grow_path env m (length p) = Inr m1" "buf_path m1 p"
      "pathlen m1 = (if length p + NAME_MAX + 2 > pathlen m then 2 * pathlen m else pathlen m)"
    using grow_path_len [OF assms(1,2)] by blast
  have big: "256 \<le> pathlen m1" "length p + 2 \<le> pathlen m1" "pathlen m \<le> pathlen m1"
    using m1(3) assms by (auto simp: NAME_MAX_def buf_path_def split: if_splits)
  then obtain b1 b2 where b: "mem_put (fullpath m1) (length p) ''/'' = Inr b1"
      "mem_put b1 (length p + 1) [nul] = Inr b2" "buf_path (m1\<lparr>fullpath := b2\<rparr>) (p @ ''/'')"
    using buf_path_slash [OF m1(2)] by auto
  have "grown m (m1\<lparr>fullpath := b2\<rparr>)"
    using b(3) big by (simp add: grown_def buf_path_def)
  then show ?thesis using that m1 b big buf_path_string [OF b(3)] by simp
qed

lemma chdir_walk:
  shows "cfs_at os w p t home \<Longrightarrow> \<forall>n. realloc_ok (c_alloc os) n \<Longrightarrow> buf_path m p \<Longrightarrow>
      128 \<le> pathlen m \<Longrightarrow> height t < fuel \<Longrightarrow>
      \<exists>m' w'. dopath_chdir os func fuel d (m, w, c) =
             Inr (m', w', run_calls func (calls (c_stat_junk os) entry_join p t d) c) \<and>
           grown m m' \<and> (w' = w \<or> w' = home)"
    and "cfs_in os w es \<Longrightarrow> \<forall>n. realloc_ok (c_alloc os) n \<Longrightarrow> height_in es < fuel \<Longrightarrow>
      length (fullpath m) = pathlen m \<Longrightarrow> 256 \<le> pathlen m \<Longrightarrow>
      \<exists>m'. visit_entries os func fuel d (map fst es) (m, w, c, 0) =
             Inr (m', w, run_calls func (calls_in (c_stat_junk os) entry_join p' es (d + 1)) c) \<and>
           grown m m'"
proof (induction os w p t home and os w es arbitrary: fuel d m c and fuel d m c p' rule: cfs_at_cfs_in.induct)
  case (1 os w p k home)
  then show ?case
    using buf_path_string
    by (cases fuel) (auto simp: run_calls_single grown_def buf_path_def simp del: run_calls.simps)
next
  case (2 os w p home)
  then show ?case
    using buf_path_string
    by (cases fuel) (auto simp: run_calls_single grown_def buf_path_def simp del: run_calls.simps)
next
  case (3 os w p home)
  then obtain f where fuel: "fuel = Suc f" by (cases fuel) auto
  obtain m1 b1 b2 where e: "grow_path (c_alloc os) m (length p) = Inr m1"
    "mem_put (fullpath m1) (length p) ''/'' = Inr b1" "mem_put b1 (length p + 1) [nul] = Inr b2"
    "c_string b2 0 = Inr (p @ ''/'')" "grown m (m1\<lparr>fullpath := b2\<rparr>)"
    using enter_dir_chdir [of m p "c_alloc os"] 3 by metis
  have "grown m m" using 3 by (simp add: grown_def buf_path_def)
  then show ?case
    using 3 e buf_path_string [of m p]
    by (cases "func p S_IFDIR FTW_D d c") (auto simp: fuel split: prod.split)
next
  case (4 os w p es home)
  then obtain f where fuel: "fuel = Suc f" by (cases fuel) auto
  obtain m1 b1 b2 where e: "grow_path (c_alloc os) m (length p) = Inr m1"
    "mem_put (fullpath m1) (length p) ''/'' = Inr b1" "mem_put b1 (length p + 1) [nul] = Inr b2"
    "c_string b2 0 = Inr (p @ ''/'')" "grown m (m1\<lparr>fullpath := b2\<rparr>)" "256 \<le> pathlen m1"
    using enter_dir_chdir [of m p "c_alloc os"] "4.prems" by metis
  obtain names w1 where names: "c_opendir os w (p @ ''/'') = Some names"
      "filter (\<lambda>n. \<not> dot_entry n) names = map fst es" "c_chdir os w (p @ ''/'') = Some w1"
      "c_chdir os w1 ''..'' = Some home" "cfs_in os w1 es"
    using "4.prems" by (auto split: option.splits)
  obtain c1 ret where call: "func p S_IFDIR FTW_D d c = (c1, ret)"
    by (cases "func p S_IFDIR FTW_D d c")
  let ?m2 = "m1\<lparr>fullpath := b2\<rparr>"
  have "\<exists>m3. visit_entries os func f d (map fst es) (?m2, w1, c1, 0) =
      Inr (m3, w1, run_calls func (calls_in (c_stat_junk os) entry_join p es (d + 1)) c1) \<and>
      grown ?m2 m3"
    using names e(5,6) "4.prems" fuel
    by (intro "4.IH" [OF refl names(1,3)]) (auto simp: grown_def)
  then obtain m3 where m3: "visit_entries os func f d (map fst es) (?m2, w1, c1, 0) =
      Inr (m3, w1, run_calls func (calls_in (c_stat_junk os) entry_join p es (d + 1)) c1)"
      "grown ?m2 m3" by blast
  have g: "grown m m3" "grown m m"
    using e(5) m3(2) "4.prems" by (auto simp: grown_def buf_path_def)
  then show ?case
    using "4.prems" e(1-4) buf_path_string [of m p] names m3 call
    by (auto simp: fuel visit_entries_filter [of os func f d names] split: prod.split)
next
  case (5 os w)
  then show ?case by (simp add: grown_def)
next
  case (6 os w n t es)
  have n: "nul_free n" "length n \<le> NAME_MAX" "\<not> dot_entry n"
    using "6.prems" by (auto simp: entry_name_def)
  obtain b where b: "c_strcpy (fullpath m) 0 n = Inr b" "buf_path (m\<lparr>fullpath := b\<rparr>) n"
    using buf_path_copy [of m "[]" n] "6.prems" n by (auto simp: NAME_MAX_def)
  have "\<exists>m1 w'. dopath_chdir os func fuel (d + 1) (m\<lparr>fullpath := b\<rparr>, w, c) =
      Inr (m1, w', run_calls func (calls (c_stat_junk os) entry_join n t (d + 1)) c) \<and>
      grown (m\<lparr>fullpath := b\<rparr>) m1 \<and> (w' = w \<or> w' = w)"
    by (rule "6.IH"(1)) (use "6.prems" b(2) in auto)
  then obtain m1 where m1: "dopath_chdir os func fuel (d + 1) (m\<lparr>fullpath := b\<rparr>, w, c) =
      Inr (m1, w, run_calls func (calls (c_stat_junk os) entry_join n t (d + 1)) c)"
      "grown m m1" by (auto simp: grown_def)
  have j: "entry_join p' n = n" by (simp add: entry_join_def)
  obtain c1 ret where call:
    "run_calls func (calls (c_stat_junk os) entry_join n t (d + 1)) c = (c1, ret)"
    by (cases "run_calls func (calls (c_stat_junk os) entry_join n t (d + 1)) c")
  show ?case
  proof (cases "ret = 0")
    case True
    have "\<exists>m2. visit_entries os func fuel d (map fst es) (m1, w, c1, 0) =
        Inr (m2, w, run_calls func (calls_in (c_stat_junk os) entry_join p' es (d + 1)) c1) \<and>
        grown m1 m2"
      by (rule "6.IH"(2)) (use "6.prems" m1(2) in \<open>auto simp: grown_def\<close>)
    then show ?thesis
      using True n b m1 call by (auto simp: run_calls_append j grown_def)
  next
    case False
    then show ?thesis
      using n b m1 call by (auto simp: run_calls_append j visit_entries_stop)
  qed
qed

lemma cfs_at_proper:
  "cfs_at os w p t home \<Longrightarrow> proper_tree t" "cfs_in os w es \<Longrightarrow> proper_in es"
  by (induction os w p t home and os w es rule: cfs_at_cfs_in.induct) (auto split: option.splits)

lemma myftw_chdir_ok:
  assumes "cfs_at os w p t home" "nul_free p" "64 \<le> length p" "height t < fuel"
    and "\<forall>n. realloc_ok (c_alloc os) n" "\<forall>n. malloc_ok (c_alloc os) n" "pathmax g \<noteq> 0"
  shows "\<exists>m w'. myftw_chdir os conf g func fuel w p c =
       Inr (m, w', run_calls func (calls (c_stat_junk os) entry_join p t 0) c) \<and>
     (w' = w \<or> w' = home)"
proof -
  obtain g' b n where alloc: "path_alloc (c_alloc os) conf g = Inr (g', b, n)"
    using path_alloc_ok [of g "c_alloc os" conf] assms by blast
  have "p \<noteq> []" using assms by auto
  then obtain m where m: "start_path (c_alloc os) p \<lparr>fullpath = b, pathlen = 0\<rparr> = Inr m"
      "buf_path m p" "pathlen m = 2 * length p"
    using start_path_ok [of "c_alloc os" p b] assms by blast
  then obtain m' w' where "dopath_chdir os func fuel 0 (m, w, c) =
      Inr (m', w', run_calls func (calls (c_stat_junk os) entry_join p t 0) c)"
      "w' = w \<or> w' = home"
    using chdir_walk(1) [of os w p t home m fuel func 0 c] assms by auto
  with alloc m(1) show ?thesis by (simp add: myftw_chdir_def path_alloc_chdir_def)
qed

text \<open>The small file system of the witnesses: the working directory is a path.\<close>

definition demo_cos :: "string list \<Rightarrow> chdir_os" where
  "demo_cos names =
     \<lparr>c_alloc = demo_alloc,
      c_lstat = (\<lambda>w q. if last q = CHR ''x'' then Some S_IFREG else Some S_IFDIR),
      c_opendir = (\<lambda>w q. Some names), c_chdir = (\<lambda>w q. Some q),
      c_closedir = (\<lambda>w q. True), c_stat_junk = S_IFNONE\<rparr>"

lemma demo_cos_simps:
  "c_stat_junk (demo_cos names) = S_IFNONE"
  "realloc_ok (c_alloc (demo_cos names)) n" "malloc_ok (c_alloc (demo_cos names)) n"
  by (simp_all add: demo_cos_def demo_alloc_def)

lemma demo_cos_tree:
  "cfs_at (demo_cos [''.'', ''..'', ''x'']) w long_root (Dir [(''x'', Leaf S_IFREG)]) ''..''"
  by (simp add: demo_cos_def long_root_def entry_name_def dot_entry_def NAME_MAX_def)

section \<open>Properties\<close>

text \<open>
  C14: correctness of the \<open>chdir\<close> walker on root paths of at least 64 bytes. The program
  never writes outside the path buffer, its recursion ends, the working directory it ends in
  is the one it started from or the parent of the root of the walk, and it makes exactly the
  calls of the pre-order walk, each with the bare entry name, stopping at the first call that
  returns non-zero.
\<close>

theorem chdir_walks:
  assumes "cfs_at os w p t home" "nul_free p" "64 \<le> length p" "height t < fuel"
    and "\<forall>n. realloc_ok (c_alloc os) n" "\<forall>n. malloc_ok (c_alloc os) n" "pathmax g \<noteq> 0"
  shows "\<exists>m w'. myftw_chdir os conf g func fuel w p c =
       Inr (m, w', run_calls func (calls (c_stat_junk os) entry_join p t 0) c) \<and>
     (w' = w \<or> w' = home)"
  using assms by (rule myftw_chdir_ok)

theorem chdir_walks_witness:
  "\<exists>m w'. myftw_chdir (demo_cos [''.'', ''..'', ''x'']) demo_conf demo_sys myfunc_chdir 2 ''/'' long_root ftw_tally0 =
     Inr (m, w', run_calls myfunc_chdir
       (calls S_IFNONE entry_join long_root (Dir [(''x'', Leaf S_IFREG)]) 0) ftw_tally0) \<and>
     (w' = ''/'' \<or> w' = ''..'')"
  using chdir_walks [OF demo_cos_tree long_root_facts(1), of 2 demo_sys demo_conf myfunc_chdir "''/''" ftw_tally0]
  by (simp add: long_root_facts demo_simps demo_cos_simps del: calls.simps run_calls.simps)

text \<open>
  C25: the two walkers agree. Shown the same tree (one through absolute paths, the other
  through working directories), both programs exit with status 0 and with the same seven
  counters, each the number of entries of its type.
\<close>

theorem chdir_nochdir_same_counts:
  assumes "fs_at os p t" "cfs_at cos w p t home" "nul_free p" "86 \<le> length p" "height t < fuel"
    and "\<forall>n. realloc_ok (os_alloc os) n" "\<forall>n. malloc_ok (os_alloc os) n"
    and "\<forall>n. realloc_ok (c_alloc cos) n" "\<forall>n. malloc_ok (c_alloc cos) n" "pathmax g \<noteq> 0"
  shows "\<exists>c1 c2. ftw_main_nochdir os conf g fuel [prog, p] = Inr (c1, 0) \<and>
     ftw_main_chdir cos conf g fuel w [prog, p] = Inr (c2, 0) \<and>
     tally_adds (\<lambda>k. count_kind k t) ftw_tally0 c1 \<and> tally_adds (\<lambda>k. count_kind k t) ftw_tally0 c2"
proof -
  let ?c0 = "put_out (Text (p @ [CHR 0x0A])) ftw_tally0"
  let ?r1 = "run_calls myfunc_nochdir (calls (stat_junk os) subpath p t 0) ftw_tally0"
  let ?r2 = "run_calls myfunc_chdir (calls (c_stat_junk cos) entry_join p t 0) ?c0"
  have "64 \<le> length p" using assms(4) by simp
  with assms obtain m1 m2 w' where run:
      "myftw os conf g myfunc_nochdir fuel p ftw_tally0 = Inr (m1, ?r1)"
      "myftw_chdir cos conf g myfunc_chdir fuel w p ?c0 = Inr (m2, w', ?r2)"
    using myftw_ok [of os p t fuel g conf myfunc_nochdir ftw_tally0]
      myftw_chdir_ok [of cos w p t home fuel g conf myfunc_chdir ?c0] by blast
  have "snd ?r1 = 0" "tally_adds (\<lambda>k. count_kind k t) ftw_tally0 (fst ?r1)"
    and "snd ?r2 = 0" "tally_adds (\<lambda>k. count_kind k t) ?c0 (fst ?r2)"
    using run_myfunc_ret run_myfunc_counts(1) [OF fs_at_proper(1) [OF assms(1)]]
    by (simp_all add: myfunc_nochdir_def myfunc_chdir_def)
  moreover have "tally_adds f ?c0 c \<longleftrightarrow> tally_adds f ftw_tally0 c" for f c
    by (simp add: tally_adds_def put_out_def)
  ultimately show ?thesis
    using run by (cases ?r1; cases ?r2) (simp add: ftw_main_nochdir_def ftw_main_chdir_def)
qed

theorem chdir_nochdir_same_counts_witness:
  "\<exists>c1 c2. ftw_main_nochdir (demo_os [''.'', ''..'', ''x'']) demo_conf demo_sys 2 [''ftw'', long_root] = Inr (c1, 0) \<and>
     ftw_main_chdir (demo_cos [''.'', ''..'', ''x'']) demo_conf demo_sys 2 ''/'' [''ftw'', long_root] = Inr (c2, 0) \<and>
     tally_adds (\<lambda>k. count_kind k (Dir [(''x'', Leaf S_IFREG)])) ftw_tally0 c1 \<and>
     tally_adds (\<lambda>k. count_kind k (Dir [(''x'', Leaf S_IFREG)])) ftw_tally0 c2"
  by (rule chdir_nochdir_same_counts [OF demo_tree demo_cos_tree long_root_facts(1)])
     (simp_all add: long_root_facts demo_simps demo_cos_simps)

text \<open>
  The same heap overflow in the \<open>chdir\<close> walker. The first entry of the root directory
  is copied to the start of a block of four times the root path: with
  \<open>4 * strlen(root) < strlen(d) + 1\<close> the copy runs past its end, for the longest name on
  every root below 64 bytes.
\<close>

lemma chdir_overflow:
  assumes "c_lstat os w p = Some S_IFDIR" "c_opendir os w (p @ ''/'') = Some names"
    and "filter (\<lambda>n. \<not> dot_entry n) names = d # ds" "c_chdir os w (p @ ''/'') = Some w1"
    and "snd (func p S_IFDIR FTW_D 0 c) = 0"
    and "nul_free p" "p \<noteq> []" "length d \<le> NAME_MAX" "4 * length p < length d + 1"
    and "\<forall>n. realloc_ok (c_alloc os) n" "\<forall>n. malloc_ok (c_alloc os) n" "pathmax g \<noteq> 0"
  shows "myftw_chdir os conf g func (Suc fuel) w p c = Inl (Faulted Out_Of_Bounds)"
proof -
  obtain g' b n where alloc: "path_alloc (c_alloc os) conf g = Inr (g', b, n)"
    using path_alloc_ok [of g "c_alloc os" conf] assms by blast
  obtain m where m: "start_path (c_alloc os) p \<lparr>fullpath = b, pathlen = 0\<rparr> = Inr m"
      "buf_path m p" "pathlen m = 2 * length p"
    using start_path_ok [of "c_alloc os" p b] assms by blast
  obtain m1 where m1: "grow_path (c_alloc os) m (length p) = Inr m1" "buf_path m1 p"
      "pathlen m1 = 4 * length p"
    using grow_path_len [OF m(2), of "c_alloc os"] assms m(3) by (auto simp: NAME_MAX_def)
  have "length p + 2 \<le> pathlen m1"
    using assms(7) m1(3) by (cases p) auto
  then obtain b1 b2 where b: "mem_put (fullpath m1) (length p) ''/'' = Inr b1"
      "mem_put b1 (length p + 1) [nul] = Inr b2" "buf_path (m1\<lparr>fullpath := b2\<rparr>) (p @ ''/'')"
    using buf_path_slash [OF m1(2)] by auto
  have "c_strcpy b2 0 d = Inl Out_Of_Bounds"
    using b(3) m1(3) assms(9) by (simp add: c_strcpy_def mem_put_def buf_path_def)
  moreover have "\<not> dot_entry d"
    using assms(3) by (metis filter_eq_ConsD)
  ultimately show ?thesis
    using assms(1-5) m m1 b buf_path_string [OF m(2)] buf_path_string [OF b(3)]
    by (cases "func p S_IFDIR FTW_D 0 c")
       (simp add: myftw_chdir_def path_alloc_chdir_def alloc visit_entries_filter [of os func fuel 0 names])
qed

end
