(* ===== verification/Fortune.thy ===== *)
theory Fortune
  imports Prelude
begin

text \<open>
  The "fortune" module of \<open>lab_04/lkm-3/md.c\<close>: a 4096-byte pot of NUL-terminated
  messages behind \<open>/proc/fortune\<close>. A write appends a message, a read returns the next
  one and starts again at the first when the last has been read.
  The state is the three static variables and the messages sent to the kernel log; the
  indices are \<open>unsigned int\<close> and every expression keeps the width C gives it.
  \<open>copy_from_user\<close> and \<open>copy_to_user\<close> are the kernel's: they are parameters, and the
  locale \<open>user_copy\<close> states what their documentation promises.
\<close>

section \<open>State and operations\<close>

record fortune_state =
  cookie_pot :: "char list"
  write_index :: u32
  read_index :: u32
  fortune_log :: "string list"

definition POT_SIZE :: u32 where
  "POT_SIZE = 4096"

type_synonym from_user = "char list \<Rightarrow> u64 \<Rightarrow> char list \<times> u64"
  \<comment> \<open>user buffer and length to the bytes stored and the number of bytes not copied\<close>
type_synonym to_user = "char list \<Rightarrow> char list \<times> u64"
  \<comment> \<open>bytes to deliver to the bytes delivered and the number not copied\<close>

definition fortune_load :: "fortune_state" where
  \<comment> \<open>the statics after a successful \<open>fortune_init\<close>: \<open>memset(cookie_pot, 0, POT_SIZE)\<close>\<close>
  "fortune_load =
     \<lparr>cookie_pot = replicate (unat POT_SIZE) nul, write_index = 0, read_index = 0,
      fortune_log = []\<rparr>"

definition fortune_open :: "fortune_state \<Rightarrow> fortune_state \<times> int" where
  "fortune_open st = (st\<lparr>fortune_log := fortune_log st @ [''fortune: open'']\<rparr>, 0)"

definition fortune_release :: "fortune_state \<Rightarrow> fortune_state \<times> int" where
  "fortune_release st = (st\<lparr>fortune_log := fortune_log st @ [''fortune: release'']\<rparr>, 0)"

definition fortune_write ::
  "from_user \<Rightarrow> fortune_state \<Rightarrow> char list \<Rightarrow> u64 \<Rightarrow> u64 \<Rightarrow>
     (fortune_state \<times> u64 \<times> (errno + u64)) may_fault" where
  "fortune_write copy_from_user st buffer len offset =
     (if len + 1 > ucast (POT_SIZE - write_index st) then Inr (st, offset, Inl ENOSPC)
      else case copy_from_user buffer len of (stored, left) \<Rightarrow>
        rbind (mem_put (cookie_pot st) (unat (write_index st)) stored) (\<lambda>pot.
          if left \<noteq> 0 then Inr (st\<lparr>cookie_pot := pot\<rparr>, offset, Inl EFAULT)
          else
            let wi = ucast (ucast (write_index st) + (len + 1) :: u64) :: u32 in
            rbind (mem_put pot (unat (wi - 1)) [nul]) (\<lambda>pot'.
              rbind (c_string pot' (unat (ucast wi - len - 1 :: u64))) (\<lambda>msg.
                Inr (st\<lparr>cookie_pot := pot', write_index := wi,
                        fortune_log := fortune_log st @ [''fortune: write: '' @ msg]\<rparr>,
                     offset + len, Inr len)))))"

definition clip_read_len :: "u64 \<Rightarrow> u32 \<Rightarrow> u32" where
  \<comment> \<open>\<open>if (read_len > len) read_len = len\<close>: the \<open>int\<close> is widened for the comparison\<close>
  "clip_read_len len read_len = (if len < scast read_len then ucast len else read_len)"

definition fortune_read ::
  "to_user \<Rightarrow> fortune_state \<Rightarrow> u64 \<Rightarrow> u64 \<Rightarrow>
     (fortune_state \<times> u64 \<times> char list \<times> (errno + u64)) may_fault" where
  "fortune_read copy_to_user st len offset =
     (if 0 < sint offset \<or> write_index st = 0 then Inr (st, offset, [], Inr 0)
      else
        let ri = (if read_index st \<ge> write_index st then 0 else read_index st);
            st1 = st\<lparr>read_index := ri\<rparr> in
        rbind (c_strlen (cookie_pot st1) (unat ri)) (\<lambda>n.
          let read_len = clip_read_len len (of_nat n) in
          rbind (mem_get (cookie_pot st1) (unat ri) (unat (scast read_len :: u64))) (\<lambda>src.
            case copy_to_user src of (delivered, left) \<Rightarrow>
              if left > 0 then Inr (st1, offset, delivered, Inl EFAULT)
              else
                let ri' = ri + (read_len + 1) in
                rbind (c_string (cookie_pot st1) (unat (ri' - read_len - 1))) (\<lambda>msg.
                  Inr (st1\<lparr>read_index := ri',
                           fortune_log := fortune_log st @ [''fortune: read: '' @ msg]\<rparr>,
                       offset + scast read_len, delivered, Inr (scast read_len))))))"

section \<open>The user-copy interface\<close>

text \<open>
  What the kernel documents: \<open>copy_from_user\<close> never stores more than it was asked to and
  returns 0 only if the whole user range was readable and copied; \<open>copy_to_user\<close> returns
  0 only if everything was delivered.
\<close>

locale user_copy =
  fixes copy_from_user :: "from_user"
    and copy_to_user :: "to_user"
  assumes from_bound: "length (fst (copy_from_user ub n)) \<le> unat n"
    and from_whole: "snd (copy_from_user ub n) = 0 \<Longrightarrow>
      unat n \<le> length ub \<and> fst (copy_from_user ub n) = take (unat n) ub"
    and to_whole: "snd (copy_to_user bs) = 0 \<Longrightarrow> fst (copy_to_user bs) = bs"

text \<open>
  A process with a flat buffer: the accessible bytes are copied, the rest of the
  destination is zeroed and counted as not copied; delivering always succeeds.
\<close>

definition flat_from_user :: "from_user" where
  "flat_from_user ub n =
     (let k = min (length ub) (unat n)
      in (take k ub @ replicate (unat n - k) nul, of_nat (unat n - k)))"

definition flat_to_user :: "to_user" where
  "flat_to_user bs = (bs, 0)"

interpretation flat: user_copy flat_from_user flat_to_user
proof unfold_locales
  fix ub :: "char list" and n :: u64
  show "length (fst (flat_from_user ub n)) \<le> unat n"
    by (simp add: flat_from_user_def Let_def min_def)
  assume z: "snd (flat_from_user ub n) = 0"
  have "unat n - min (length ub) (unat n) < 2 ^ LENGTH(64)"
    using unat_u64_less [of n] by (simp add: less_imp_diff_less)
  then have "unat (snd (flat_from_user ub n)) = unat n - min (length ub) (unat n)"
    unfolding flat_from_user_def Let_def snd_conv by (rule unat_of_nat_small)
  with z have "unat n - min (length ub) (unat n) = 0"
    by simp
  then show "unat n \<le> length ub \<and> fst (flat_from_user ub n) = take (unat n) ub"
    by (auto simp: flat_from_user_def Let_def min_def split: if_splits)
qed (simp add: flat_to_user_def)

section \<open>The invariant\<close>

definition fortune_inv :: "fortune_state \<Rightarrow> bool" where
  "fortune_inv st \<longleftrightarrow>
     length (cookie_pot st) = 4096 \<and> unat (write_index st) \<le> 4096 \<and>
     (0 < unat (write_index st) \<longrightarrow> cookie_pot st ! (unat (write_index st) - 1) = nul) \<and>
     unat (read_index st) \<le> unat (write_index st)"

lemma fortune_inv_load: "fortune_inv fortune_load"
  by (simp add: fortune_inv_def fortune_load_def POT_SIZE_def)

lemma room_left:
  "unat w \<le> 4096 \<Longrightarrow> unat (POT_SIZE - w) = 4096 - unat w"
  by (simp add: POT_SIZE_def unat_sub word_le_nat_alt)

text \<open>The guard of the write, as numbers: only the length \<open>SIZE_MAX\<close> escapes it.\<close>

lemma write_guard:
  fixes len :: u64
  assumes "unat (write_index st) \<le> 4096" "len \<noteq> - 1"
  shows "len + 1 > ucast (POT_SIZE - write_index st) \<longleftrightarrow>
     4096 < unat (write_index st) + (unat len + 1)"
  using assms by (auto simp: word_less_nat_alt room_left unat_Suc_u64)

lemma write_index_advance:
  fixes w :: u32 and len :: u64
  assumes "unat w + (unat len + 1) \<le> 4096"
  shows "unat (ucast (ucast w + (len + 1) :: u64) :: u32) = unat w + (unat len + 1)"
proof -
  have "len \<noteq> - 1" using assms by (auto simp: unat_minus_one_u64)
  then have one: "unat (len + 1) = unat len + 1" by (simp add: unat_Suc_u64)
  have "unat (ucast w + (len + 1) :: u64) = unat w + (unat len + 1)"
    using assms by (simp add: unat_word_ariths one)
  then show ?thesis
    using assms by (simp add: unsigned_ucast_eq take_bit_nat_eq_self)
qed

lemma message_index:
  fixes w w' :: u32 and len :: u64
  assumes "unat w' = unat w + (unat len + 1)"
  shows "unat (ucast w' - len - 1 :: u64) = unat w"
proof -
  have "ucast w' = (ucast w + (len + 1) :: u64)"
    by (rule word_unat_eq_iff [THEN iffD2])
      (use assms unat_u32_less [of w'] in \<open>simp add: unat_word_ariths\<close>)
  then show ?thesis by simp
qed

section \<open>Writing\<close>

definition written :: "fortune_state \<Rightarrow> char list \<Rightarrow> fortune_state" where
  \<comment> \<open>the state after the message \<open>s\<close> has been appended\<close>
  "written st s =
     st\<lparr>cookie_pot := take (unat (write_index st)) (cookie_pot st) @ s @
           nul # drop (Suc (unat (write_index st) + length s)) (cookie_pot st),
        write_index := write_index st + of_nat (length s + 1),
        fortune_log := fortune_log st @
           [''fortune: write: '' @ takeWhile (\<lambda>c. c \<noteq> nul) s]\<rparr>"

lemma written_index:
  "unat (write_index st) + (length s + 1) \<le> 4096 \<Longrightarrow>
     unat (write_index (written st s)) = unat (write_index st) + (length s + 1)"
  by (simp add: written_def unat_word_ariths unat_of_nat take_bit_nat_eq_self)


lemma written_read_index [simp]: "read_index (written st s) = read_index st"
  by (simp add: written_def)

lemma written_inv:
  assumes "fortune_inv st" "unat (write_index st) + (length s + 1) \<le> 4096"
  shows "fortune_inv (written st s)"
proof -
  note wi = written_index [OF assms(2)]
  have "length (cookie_pot (written st s)) = 4096"
    using assms by (simp add: fortune_inv_def written_def min_def)
  moreover have "cookie_pot (written st s) ! (unat (write_index (written st s)) - 1) = nul"
    unfolding wi using assms by (simp add: fortune_inv_def written_def nth_append min_def)
  ultimately show ?thesis
    using assms wi by (simp add: fortune_inv_def)
qed

context user_copy begin

lemma write_no_room:
  assumes "fortune_inv st" "len \<noteq> - 1" "4096 < unat (write_index st) + (unat len + 1)"
  shows "fortune_write copy_from_user st ub len off = Inr (st, off, Inl ENOSPC)"
  using assms write_guard [of st len] by (simp add: fortune_write_def fortune_inv_def)

lemma write_fault:
  assumes "fortune_inv st" "len \<noteq> - 1" "unat (write_index st) + (unat len + 1) \<le> 4096"
    and "snd (copy_from_user ub len) \<noteq> 0"
  shows "\<exists>pot. fortune_write copy_from_user st ub len off =
            Inr (st\<lparr>cookie_pot := pot\<rparr>, off, Inl EFAULT) \<and>
          length pot = length (cookie_pot st) \<and>
          take (unat (write_index st)) pot = take (unat (write_index st)) (cookie_pot st)"
proof -
  obtain stored left where c: "copy_from_user ub len = (stored, left)"
    by (cases "copy_from_user ub len")
  have "unat (write_index st) + length stored \<le> length (cookie_pot st)"
    using from_bound [of ub len] assms c by (simp add: fortune_inv_def)
  then obtain pot where pot: "mem_put (cookie_pot st) (unat (write_index st)) stored = Inr pot"
    by (simp add: mem_put_ok)
  have "fortune_write copy_from_user st ub len off = Inr (st\<lparr>cookie_pot := pot\<rparr>, off, Inl EFAULT)"
    using assms write_guard [of st len] c pot by (simp add: fortune_write_def fortune_inv_def)
  then show ?thesis
    using mem_put_length [OF pot] mem_put_take [OF pot] by blast
qed

lemma write_done:
  assumes inv: "fortune_inv st" and room: "unat (write_index st) + (unat len + 1) \<le> 4096"
    and copied: "snd (copy_from_user ub len) = 0"
  shows "fortune_write copy_from_user st ub len off =
     Inr (written st (take (unat len) ub), off + len, Inr len)"
proof -
  let ?w = "write_index st" and ?s = "take (unat len) ub"
  have len: "len \<noteq> - 1" using room by (auto simp: unat_minus_one_u64)
  have ub: "length ?s = unat len" and c: "copy_from_user ub len = (?s, 0)"
    using from_whole [OF copied] copied by (auto simp: prod_eq_iff)
  define w' where "w' = (ucast (ucast ?w + (len + 1) :: u64) :: u32)"
  have w': "unat w' = unat ?w + (unat len + 1)"
    unfolding w'_def by (rule write_index_advance [OF room])
  have w'_eq: "w' = write_index (written st ?s)"
    by (rule word_unat_eq_iff [THEN iffD2]) (use w' written_index [of st ?s] room ub in simp)
  have w1: "unat (w' - 1) = unat ?w + unat len"
    using w' by (subst unat_minus_one) auto
  have put: "mem_put (cookie_pot st) (unat ?w) ?s =
      Inr (take (unat ?w) (cookie_pot st) @ ?s @ drop (unat ?w + length ?s) (cookie_pot st))"
    using inv room ub by (intro mem_put_ok) (simp add: fortune_inv_def)
  have end_put: "mem_put (take (unat ?w) (cookie_pot st) @ ?s @ drop (unat ?w + length ?s) (cookie_pot st))
      (unat ?w + length ?s) [nul] = Inr (cookie_pot (written st ?s))"
    using inv room ub by (subst mem_put_put_end) (simp_all add: fortune_inv_def written_def)
  have msg: "c_string (cookie_pot (written st ?s)) (unat ?w) = Inr (takeWhile (\<lambda>c. c \<noteq> nul) ?s)"
    using inv room by (simp add: c_string_def written_def terminated_def cstr_def
        takeWhile_append_nul fortune_inv_def)
  show ?thesis
    using write_guard [of st len] inv room len put end_put msg message_index [OF w'] w1 ub w'_eq
    by (simp add: fortune_write_def fortune_inv_def c Let_def w'_def [symmetric] written_def)
qed

end

section \<open>Reading\<close>

definition position :: "fortune_state \<Rightarrow> u32" where
  \<comment> \<open>where the next read starts\<close>
  "position st = (if read_index st \<ge> write_index st then 0 else read_index st)"

definition after_read :: "fortune_state \<Rightarrow> nat \<Rightarrow> fortune_state" where
  \<comment> \<open>the state after \<open>k\<close> bytes of the next message have been delivered\<close>
  "after_read st k =
     st\<lparr>read_index := position st + (of_nat k + 1),
        fortune_log := fortune_log st @
           [''fortune: read: '' @ cstr (cookie_pot st) (unat (position st))]\<rparr>"

lemma after_read_simps [simp]:
  "write_index (after_read st k) = write_index st"
  "cookie_pot (after_read st k) = cookie_pot st"
  by (simp_all add: after_read_def)

lemma position_unread: "unat (read_index st) < unat (write_index st) \<Longrightarrow> position st = read_index st"
  by (simp add: position_def word_le_nat_alt)

lemma position_less:
  "write_index st \<noteq> 0 \<Longrightarrow> unat (position st) < unat (write_index st)"
  by (auto simp: position_def word_le_nat_alt unat_gt_0)

lemma next_message:
  assumes "fortune_inv st" "write_index st \<noteq> 0"
  shows "terminated (cookie_pot st) (unat (position st))"
    and "unat (position st) + length (cstr (cookie_pot st) (unat (position st))) <
           unat (write_index st)"
proof -
  let ?e = "unat (write_index st) - 1"
  have w: "0 < unat (write_index st)" using assms(2) by (simp add: unat_gt_0)
  have p: "unat (position st) \<le> ?e" using position_less [OF assms(2)] by simp
  have e: "?e < length (cookie_pot st)" "cookie_pot st ! ?e = nul"
    using assms w by (auto simp: fortune_inv_def)
  show "terminated (cookie_pot st) (unat (position st))"
    by (rule terminatedI [OF p e])
  show "unat (position st) + length (cstr (cookie_pot st) (unat (position st))) <
           unat (write_index st)"
    using cstr_length_le [OF p e] w by linarith
qed

lemma after_read_index:
  assumes "fortune_inv st" "write_index st \<noteq> 0"
    and "k \<le> length (cstr (cookie_pot st) (unat (position st)))"
  shows "unat (read_index (after_read st k)) = unat (position st) + (k + 1)"
proof -
  have "unat (position st) + (k + 1) \<le> 4096"
    using next_message(2) [OF assms(1,2)] assms by (simp add: fortune_inv_def)
  then show ?thesis
    by (simp add: after_read_def unat_word_ariths unat_of_nat take_bit_nat_eq_self)
qed

lemma after_read_inv:
  assumes "fortune_inv st" "write_index st \<noteq> 0"
    and "k \<le> length (cstr (cookie_pot st) (unat (position st)))"
  shows "fortune_inv (after_read st k)"
  using after_read_index [OF assms] next_message(2) [OF assms(1,2)] assms
  by (simp add: fortune_inv_def)

lemma position_inv: "fortune_inv st \<Longrightarrow> fortune_inv (st\<lparr>read_index := position st\<rparr>)"
  by (simp add: fortune_inv_def position_def)

context user_copy begin

lemma read_eof:
  "0 < sint off \<or> write_index st = 0 \<Longrightarrow>
     fortune_read copy_to_user st len off = Inr (st, off, [], Inr 0)"
  by (simp add: fortune_read_def)

lemma read_steps:
  assumes inv: "fortune_inv st" and first: "\<not> 0 < sint off" "write_index st \<noteq> 0"
    and k: "k = min (unat len) (length (cstr (cookie_pot st) (unat (position st))))"
    and s: "s = take k (cstr (cookie_pot st) (unat (position st)))"
  shows "fortune_read copy_to_user st len off =
     (if snd (copy_to_user s) = 0
      then Inr (after_read st k, off + of_nat k, s, Inr (of_nat k))
      else Inr (st\<lparr>read_index := position st\<rparr>, off, fst (copy_to_user s), Inl EFAULT))"
proof -
  let ?p = "position st" and ?pot = "cookie_pot st"
  let ?n = "length (cstr ?pot (unat ?p))"
  note trm = next_message(1) [OF inv first(2)]
  have n: "?n < 4096"
    using next_message(2) [OF inv first(2)] inv by (simp add: fortune_inv_def)
  then have full: "scast (of_nat ?n :: u32) = (of_nat ?n :: u64)" "unat (of_nat ?n :: u64) = ?n"
    by (simp_all add: scast_of_nat_u32_u64 unat_of_nat_u64)
  have k_less: "k < 4096" using k n by simp
  have r: "clip_read_len len (of_nat ?n) = of_nat k"
  proof (cases "unat len < ?n")
    case True
    then have "ucast len = (of_nat (unat len) :: u32)" by simp
    with True show ?thesis using full by (simp add: clip_read_len_def k word_less_nat_alt min_def)
  next
    case False
    with full show ?thesis by (simp add: clip_read_len_def k word_less_nat_alt min_def)
  qed
  have rk: "scast (of_nat k :: u32) = (of_nat k :: u64)" "unat (of_nat k :: u64) = k"
    using k_less by (simp_all add: scast_of_nat_u32_u64 unat_of_nat_u64)
  have "unat ?p + k \<le> length ?pot"
    using terminated_length [OF trm] k by simp
  moreover have "take k (drop (unat ?p) ?pot) = s"
    using terminated_split [OF trm] k s by (auto simp: min_def)
  ultimately have get: "mem_get ?pot (unat ?p) k = Inr s"
    by (simp add: mem_get_ok)
  have ri: "(if read_index st \<ge> write_index st then 0 else read_index st) = ?p"
    by (simp add: position_def)
  have fin: "d = s" if "copy_to_user s = (d, 0)" for d
    using that to_whole [of s] by simp
  have same: "?p + (of_nat k + 1) - of_nat k - 1 = ?p" by simp
  show ?thesis
    unfolding fortune_read_def ri Let_def
    using first fin
    by (simp add: c_strlen_Inr [OF trm] c_string_Inr [OF trm] r rk get after_read_def
        word_neq_0_conv [symmetric] same split: prod.split)
qed

end

section \<open>Every sequence of requests\<close>

datatype fortune_op =
    Fwrite "char list" u64 u64 \<comment> \<open>user buffer, length, offset\<close>
  | Fread u64 u64 \<comment> \<open>length, offset\<close>
  | Fopen
  | Frelease

definition fortune_step ::
  "from_user \<Rightarrow> to_user \<Rightarrow> fortune_op \<Rightarrow> fortune_state \<Rightarrow> fortune_state may_fault" where
  "fortune_step cfu ctu oper st =
     (case oper of
        Fwrite ub len off \<Rightarrow> rbind (fortune_write cfu st ub len off) (\<lambda>r. Inr (fst r))
      | Fread len off \<Rightarrow> rbind (fortune_read ctu st len off) (\<lambda>r. Inr (fst r))
      | Fopen \<Rightarrow> Inr (fst (fortune_open st))
      | Frelease \<Rightarrow> Inr (fst (fortune_release st)))"

fun fortune_run ::
  "from_user \<Rightarrow> to_user \<Rightarrow> fortune_op list \<Rightarrow> fortune_state \<Rightarrow> fortune_state may_fault" where
  "fortune_run cfu ctu [] st = Inr st"
| "fortune_run cfu ctu (x # xs) st = rbind (fortune_step cfu ctu x st) (fortune_run cfu ctu xs)"

fun vfs_length_ok :: "fortune_op \<Rightarrow> bool" where
  \<comment> \<open>the VFS passes at most \<open>MAX_RW_COUNT\<close> bytes, never \<open>SIZE_MAX\<close>\<close>
  "vfs_length_ok (Fwrite ub len off) \<longleftrightarrow> len \<noteq> - 1"
| "vfs_length_ok _ \<longleftrightarrow> True"

lemma fortune_inv_log [simp]:
  "fortune_inv (st\<lparr>fortune_log := l\<rparr>) \<longleftrightarrow> fortune_inv st"
  by (simp add: fortune_inv_def)

context user_copy begin

lemma write_cases:
  assumes "fortune_inv st" "len \<noteq> - 1"
  obtains (no_room) "fortune_write copy_from_user st ub len off = Inr (st, off, Inl ENOSPC)"
      "4096 < unat (write_index st) + (unat len + 1)"
  | (faulted) pot where "fortune_write copy_from_user st ub len off =
        Inr (st\<lparr>cookie_pot := pot\<rparr>, off, Inl EFAULT)"
      "length pot = length (cookie_pot st)"
      "take (unat (write_index st)) pot = take (unat (write_index st)) (cookie_pot st)"
  | (stored) "fortune_write copy_from_user st ub len off =
        Inr (written st (take (unat len) ub), off + len, Inr len)"
      "unat (write_index st) + (unat len + 1) \<le> 4096" "unat len \<le> length ub"
proof (cases "4096 < unat (write_index st) + (unat len + 1)")
  case True
  then show ?thesis using write_no_room [OF assms] no_room by blast
next
  case False
  then have room: "unat (write_index st) + (unat len + 1) \<le> 4096" by simp
  show ?thesis
  proof (cases "snd (copy_from_user ub len) = 0")
    case True
    then show ?thesis
      using stored write_done [OF assms(1) room True] room from_whole [OF True] by blast
  next
    case False
    then show ?thesis using faulted write_fault [OF assms room False] by blast
  qed
qed

lemma write_step:
  assumes "fortune_inv st" "len \<noteq> - 1"
  shows "\<exists>st' off' r. fortune_write copy_from_user st ub len off = Inr (st', off', r) \<and> fortune_inv st'"
  using assms
proof (cases rule: write_cases [of st len ub off])
  case (faulted pot)
  have "pot ! (unat (write_index st) - 1) = cookie_pot st ! (unat (write_index st) - 1)"
    if "0 < unat (write_index st)"
    using arg_cong [OF faulted(3), of "\<lambda>xs. xs ! (unat (write_index st) - 1)"] that by simp
  with faulted assms show ?thesis by (auto simp: fortune_inv_def)
next
  case stored
  then show ?thesis
    using assms written_inv [of st "take (unat len) ub"] by (simp add: min_def)
qed (use assms in auto)

lemma read_step:
  assumes "fortune_inv st"
  shows "\<exists>st' off' d r. fortune_read copy_to_user st len off = Inr (st', off', d, r) \<and> fortune_inv st'"
proof (cases "0 < sint off \<or> write_index st = 0")
  case True
  then show ?thesis using assms by (simp add: read_eof)
next
  case False
  then show ?thesis
    using assms read_steps [OF assms _ _ refl refl, of off len] after_read_inv [OF assms]
      position_inv [OF assms] by simp
qed

lemma step_safe:
  assumes "fortune_inv st" "vfs_length_ok x"
  shows "\<exists>st'. fortune_step copy_from_user copy_to_user x st = Inr st' \<and> fortune_inv st'"
proof (cases x)
  case (Fwrite ub len off)
  then show ?thesis
    using assms write_step [of st len ub off] by (auto simp: fortune_step_def)
next
  case (Fread len off)
  then show ?thesis
    using assms read_step [of st len off] by (auto simp: fortune_step_def)
qed (use assms in \<open>auto simp: fortune_step_def fortune_open_def fortune_release_def\<close>)

lemma run_safe:
  "fortune_inv st \<Longrightarrow> list_all vfs_length_ok xs \<Longrightarrow>
     \<exists>st'. fortune_run copy_from_user copy_to_user xs st = Inr st' \<and> fortune_inv st'"
proof (induction xs arbitrary: st)
  case Nil
  then show ?case by simp
next
  case (Cons x xs)
  then obtain st1 where "fortune_step copy_from_user copy_to_user x st = Inr st1" "fortune_inv st1"
    using step_safe [of st x] by auto
  with Cons show ?case by simp
qed

end

section \<open>The message board it implements\<close>

text \<open>
  Seen from outside, the module is a list of messages and the number of messages read in
  the current round. \<open>holds st ms k\<close> says that the pot stores exactly the messages \<open>ms\<close>
  and that the next read starts right after the first \<open>k\<close> of them.
\<close>

definition enc :: "char list list \<Rightarrow> char list" where
  "enc ms = concat (map (\<lambda>m. m @ [nul]) ms)"

definition holds :: "fortune_state \<Rightarrow> char list list \<Rightarrow> nat \<Rightarrow> bool" where
  "holds st ms k \<longleftrightarrow>
     fortune_inv st \<and> list_all nul_free ms \<and> k \<le> length ms \<and>
     unat (write_index st) = length (enc ms) \<and>
     take (length (enc ms)) (cookie_pot st) = enc ms \<and>
     unat (read_index st) = length (enc (take k ms))"

definition board_next :: "char list list \<Rightarrow> nat \<Rightarrow> nat" where
  \<comment> \<open>the message the next read delivers: a finished round starts again\<close>
  "board_next ms k = (if length ms \<le> k then 0 else k)"

lemma enc_simps [simp]:
  "enc [] = []"
  "enc (m # ms) = m @ nul # enc ms"
  "enc (ms @ ns) = enc ms @ enc ns"
  by (simp_all add: enc_def)

lemma enc_split:
  "j < length ms \<Longrightarrow> enc ms = enc (take j ms) @ (ms ! j) @ nul # enc (drop (Suc j) ms)"
  by (metis append.assoc append_Cons append_take_drop_id Cons_nth_drop_Suc enc_simps(2,3))

lemma length_enc_take_less:
  "k < length ms \<Longrightarrow> length (enc (take k ms)) < length (enc ms)"
  by (subst enc_split) auto

lemma enc_Nil_iff: "length (enc ms) = 0 \<longleftrightarrow> ms = []"
  by (cases ms) auto

lemma holds_load: "holds fortune_load [] 0"
  using fortune_inv_load by (simp add: holds_def fortune_load_def)

lemma holds_written:
  assumes "holds st ms k" "nul_free s" "unat (write_index st) + (length s + 1) \<le> 4096"
  shows "holds (written st s) (ms @ [s]) k"
proof -
  have "fortune_inv (written st s)"
    using assms by (intro written_inv) (auto simp: holds_def)
  then show ?thesis
    using assms written_index [OF assms(3)]
    by (auto simp: holds_def fortune_inv_def min_def) (auto simp: written_def min_def)
qed

lemma holds_position:
  assumes "holds st ms k" "ms \<noteq> []"
  shows "unat (position st) = length (enc (take (board_next ms k) ms))"
  using assms length_enc_take_less [of k ms]
  by (auto simp: holds_def position_def board_next_def word_le_nat_alt not_le)

lemma board_next_less: "ms \<noteq> [] \<Longrightarrow> board_next ms k < length ms"
  by (simp add: board_next_def)

lemma holds_message:
  assumes h: "holds st ms k" and ne: "ms \<noteq> []"
  shows "cstr (cookie_pot st) (unat (position st)) = ms ! board_next ms k"
proof -
  let ?j = "board_next ms k"
  have j: "?j < length ms" using ne by (rule board_next_less)
  have "cookie_pot st = enc ms @ drop (length (enc ms)) (cookie_pot st)"
    using h by (metis append_take_drop_id holds_def)
  also have "\<dots> = enc (take ?j ms) @ (ms ! ?j) @ nul #
      (enc (drop (Suc ?j) ms) @ drop (length (enc ms)) (cookie_pot st))"
    using enc_split [OF j] by simp
  finally show ?thesis
    using h j holds_position [OF h ne] by (metis cstr_at holds_def list_all_length)
qed

lemma holds_after_read:
  assumes h: "holds st ms k" and ne: "ms \<noteq> []"
  shows "holds (after_read st (length (ms ! board_next ms k))) ms (Suc (board_next ms k))"
proof -
  let ?j = "board_next ms k"
  have inv: "fortune_inv st" and w: "write_index st \<noteq> 0"
    using h ne enc_Nil_iff [of ms] by (auto simp: holds_def)
  have len: "length (ms ! ?j) \<le> length (cstr (cookie_pot st) (unat (position st)))"
    by (simp add: holds_message [OF h ne])
  have j: "?j < length ms" using ne by (rule board_next_less)
  show ?thesis
    unfolding holds_def
  proof (intro conjI)
    show "fortune_inv (after_read st (length (ms ! ?j)))"
      by (rule after_read_inv [OF inv w len])
    show "unat (read_index (after_read st (length (ms ! ?j)))) = length (enc (take (Suc ?j) ms))"
      using after_read_index [OF inv w len] holds_position [OF h ne] j
      by (simp add: take_Suc_conv_app_nth)
  qed (use h j in \<open>auto simp: holds_def after_read_def\<close>)
qed

lemma holds_wi: "holds st ms k \<Longrightarrow> write_index st = 0 \<longleftrightarrow> ms = []"
  using enc_Nil_iff [of ms] by (auto simp: holds_def unat_eq_zero [symmetric])

lemma read_whole:
  assumes uc: "user_copy cfu ctu" and h: "holds st ms k" and ne: "ms \<noteq> []"
    and off: "\<not> 0 < sint off" and len: "length (ms ! board_next ms k) \<le> unat len"
    and ok: "snd (ctu (ms ! board_next ms k)) = 0"
  shows "fortune_read ctu st len off =
     Inr (after_read st (length (ms ! board_next ms k)),
          off + of_nat (length (ms ! board_next ms k)), ms ! board_next ms k,
          Inr (of_nat (length (ms ! board_next ms k))))"
proof -
  have inv: "fortune_inv st" and w: "write_index st \<noteq> 0"
    using h ne holds_wi [OF h] by (auto simp: holds_def)
  show ?thesis
    using user_copy.read_steps [OF uc inv off w refl refl, of len] holds_message [OF h ne] len ok
    by (simp add: min_def)
qed

text \<open>Successive \<open>cat\<close>s: each opens the file anew, so every read starts at offset 0.\<close>

fun fortune_cats :: "to_user \<Rightarrow> u64 \<Rightarrow> nat \<Rightarrow> fortune_state \<Rightarrow> char list list may_fault" where
  "fortune_cats ctu len 0 st = Inr []"
| "fortune_cats ctu len (Suc n) st =
     rbind (fortune_read ctu st len 0) (\<lambda>(st', off, d, r).
       rbind (fortune_cats ctu len n st') (\<lambda>ds. Inr (d # ds)))"

fun fortune_fill :: "from_user \<Rightarrow> char list list \<Rightarrow> fortune_state \<Rightarrow> fortune_state may_fault" where
  "fortune_fill cfu [] st = Inr st"
| "fortune_fill cfu (m # ms) st =
     rbind (fortune_write cfu st m (of_nat (length m)) 0) (\<lambda>(st', off, r). fortune_fill cfu ms st')"

lemma board_next_mod: "ms \<noteq> [] \<Longrightarrow> k \<le> length ms \<Longrightarrow> board_next ms k = k mod length ms"
  by (auto simp: board_next_def)

lemma cats_holds:
  assumes "user_copy cfu ctu" "\<And>bs. snd (ctu bs) = 0" "4096 \<le> unat len"
  shows "holds st ms k \<Longrightarrow> ms \<noteq> [] \<Longrightarrow>
     fortune_cats ctu len n st = Inr (map (\<lambda>j. ms ! ((k + j) mod length ms)) [0..<n])"
proof (induction n arbitrary: st k)
  case 0
  then show ?case by simp
next
  case (Suc n)
  let ?j = "board_next ms k"
  note h = Suc.prems
  have jm: "?j = k mod length ms"
    using h by (auto intro: board_next_mod simp: holds_def)
  have "length (ms ! ?j) < 4096"
    using enc_split [OF board_next_less [OF h(2), of k]] h by (auto simp: holds_def fortune_inv_def)
  then have "fortune_read ctu st len 0 =
      Inr (after_read st (length (ms ! ?j)), 0 + of_nat (length (ms ! ?j)), ms ! ?j,
           Inr (of_nat (length (ms ! ?j))))"
    using assms by (intro read_whole [OF assms(1) h]) auto
  moreover have "fortune_cats ctu len n (after_read st (length (ms ! ?j))) =
      Inr (map (\<lambda>i. ms ! ((Suc ?j + i) mod length ms)) [0..<n])"
    by (rule Suc.IH [OF holds_after_read [OF h] h(2)])
  moreover have "(Suc ?j + i) mod length ms = (k + Suc i) mod length ms" for i
    by (simp add: jm mod_Suc_eq mod_add_left_eq add.commute [of _ i] flip: add_Suc_right)
       (metis add_Suc_right mod_add_left_eq add.commute)
  ultimately show ?case
    by (simp add: jm map_upt_Suc del: upt_Suc)
qed

lemma fill_holds:
  "holds st ms k \<Longrightarrow> list_all nul_free ns \<Longrightarrow> length (enc (ms @ ns)) \<le> 4096 \<Longrightarrow>
     \<exists>st'. fortune_fill flat_from_user ns st = Inr st' \<and> holds st' (ms @ ns) k"
proof (induction ns arbitrary: st ms)
  case Nil
  then show ?case by simp
next
  case (Cons n ns)
  have len: "unat (of_nat (length n) :: u64) = length n"
    using Cons.prems(3) by (intro unat_of_nat_u64) simp
  have inv: "fortune_inv st" and room: "unat (write_index st) + (length n + 1) \<le> 4096"
    using Cons.prems by (auto simp: holds_def)
  have "snd (flat_from_user n (of_nat (length n))) = 0"
    by (simp add: flat_from_user_def len)
  then have "fortune_write flat_from_user st n (of_nat (length n)) 0 =
      Inr (written st n, of_nat (length n), Inr (of_nat (length n)))"
    using flat.write_done [OF inv, of "of_nat (length n)" n 0] room by (simp add: len)
  moreover have "holds (written st n) (ms @ [n]) k"
    using Cons.prems room by (intro holds_written) auto
  ultimately show ?case
    using Cons.IH [of "written st n" "ms @ [n]"] Cons.prems by simp
qed

section \<open>Properties\<close>

text \<open>
  C11: memory safety of the module. Whatever sequence of opens, writes, reads and releases
  user space issues, with whatever buffers, lengths (below \<open>SIZE_MAX\<close>) and offsets, no
  access leaves the 4096-byte pot, every string handed to \<open>strlen\<close> or to the log is
  terminated inside it, and the invariant between the two indices holds again.
\<close>

theorem fortune_never_faults:
  assumes "user_copy cfu ctu" and "list_all vfs_length_ok ops"
  shows "\<exists>st. fortune_run cfu ctu ops fortune_load = Inr st \<and> fortune_inv st"
  using user_copy.run_safe [OF assms(1) fortune_inv_load assms(2)] .

theorem fortune_never_faults_witness:
  "\<exists>st. fortune_run flat_from_user flat_to_user
      [Fopen, Fwrite ''hello'' 5 0, Fread 3 0, Fread 3 0, Fwrite ''ab'' 9 0, Frelease]
      fortune_load = Inr st \<and> fortune_inv st"
  by (rule fortune_never_faults [OF flat.user_copy_axioms]) simp

text \<open>
  C4: the module is a round-robin message board. After the NUL-free messages \<open>ms\<close> have
  been written to the fresh module, and they fit with their terminators, \<open>n\<close> successive
  reads with a large enough buffer deliver the messages in the order of writing, starting
  over after the last.
\<close>

theorem fortune_round_robin:
  assumes "list_all nul_free ms" "length (enc ms) \<le> 4096" "ms \<noteq> []" "4096 \<le> unat len"
  shows "rbind (fortune_fill flat_from_user ms fortune_load) (fortune_cats flat_to_user len n) =
     Inr (map (\<lambda>j. ms ! (j mod length ms)) [0..<n])"
proof -
  obtain st where st: "fortune_fill flat_from_user ms fortune_load = Inr st" "holds st ms 0"
    using fill_holds [OF holds_load, of ms] assms by auto
  have "fortune_cats flat_to_user len n st = Inr (map (\<lambda>j. ms ! ((0 + j) mod length ms)) [0..<n])"
    by (rule cats_holds [OF flat.user_copy_axioms _ assms(4) st(2) assms(3)])
       (simp add: flat_to_user_def)
  with st show ?thesis by simp
qed

theorem fortune_round_robin_witness:
  "rbind (fortune_fill flat_from_user [''one'', ''two''] fortune_load)
     (fortune_cats flat_to_user 4096 3) = Inr [''one'', ''two'', ''one'']"
proof -
  have "rbind (fortune_fill flat_from_user [''one'', ''two''] fortune_load)
      (fortune_cats flat_to_user 4096 3) =
    Inr (map (\<lambda>j. [''one'', ''two''] ! (j mod length [''one'', ''two''])) [0..<3])"
    by (rule fortune_round_robin) simp_all
  then show ?thesis by (simp add: upt_rec)
qed



text \<open>
  C34: a read with a buffer shorter than the message loses a byte. It delivers the first
  \<open>len\<close> bytes but moves the read index past the byte that follows them (the \<open>+ 1\<close> meant
  for the NUL), so the next read continues one byte too far.
\<close>

theorem fortune_short_read_skips:
  assumes "user_copy cfu ctu" "fortune_inv st" "write_index st \<noteq> 0" "\<not> 0 < sint off"
    and "msg = cstr (cookie_pot st) (unat (position st))" "unat len < length msg"
    and "snd (ctu (take (unat len) msg)) = 0"
  shows "\<exists>st'. fortune_read ctu st len off = Inr (st', off + len, take (unat len) msg, Inr len) \<and>
     cstr (cookie_pot st') (unat (position st')) = drop (unat len + 1) msg"
proof -
  let ?k = "unat len" and ?p = "unat (position st)"
  let ?st = "after_read st ?k"
  have read: "fortune_read ctu st len off = Inr (?st, off + len, take ?k msg, Inr len)"
    using user_copy.read_steps [OF assms(1,2,4,3) refl refl, of len] assms(5-7)
    by (simp add: min_def)
  have ri: "unat (read_index ?st) = ?p + (?k + 1)"
    using assms by (intro after_read_index) auto
  have "?p + length msg < unat (write_index st)"
    using next_message(2) [OF assms(2,3)] assms(5) by simp
  then have "unat (position ?st) = ?p + (?k + 1)"
    using ri assms(6) position_unread [of ?st] by simp
  moreover obtain t where "drop ?p (cookie_pot st) = msg @ nul # t"
    using terminated_split [OF next_message(1) [OF assms(2,3)]] assms(5) by blast
  then have "drop (?p + (?k + 1)) (cookie_pot st) = drop (?k + 1) msg @ nul # t"
    using assms(6) by (metis add.commute drop_drop drop_append diff_is_0_eq drop0 Suc_leI Suc_eq_plus1)
  then have "cstr (cookie_pot st) (?p + (?k + 1)) = drop (?k + 1) msg"
    using assms(5) nul_free_drop [of msg "?k + 1"] by (simp add: cstr_def takeWhile_nul_free)
  ultimately show ?thesis
    using read by simp
qed

theorem fortune_short_read_skips_witness:
  "\<exists>st. fortune_fill flat_from_user [''abcd''] fortune_load = Inr st \<and>
     (\<exists>st'. fortune_read flat_to_user st 1 0 = Inr (st', 1, ''a'', Inr 1) \<and>
       cstr (cookie_pot st') (unat (position st')) = ''cd'')"
proof -
  obtain st where st: "fortune_fill flat_from_user [''abcd''] fortune_load = Inr st"
      and h: "holds st [''abcd''] 0"
    using fill_holds [OF holds_load, of "[''abcd'']"] by auto
  have m: "''abcd'' = cstr (cookie_pot st) (unat (position st))"
    using holds_message [OF h] by (simp add: board_next_def)
  have inv: "fortune_inv st" and w: "write_index st \<noteq> 0"
    using h holds_wi [OF h] by (auto simp: holds_def)
  from fortune_short_read_skips [OF flat.user_copy_axioms inv w _ m, of 0 1] st
  show ?thesis by (simp add: flat_to_user_def)
qed

end
