(* ===== verification/Kmodule.thy ===== *)
theory Kmodule
  imports Prelude
begin

text \<open>
  Kernel modules as the sequence of resource calls they make. An init function is given the
  outcome of every kernel call that can fail and returns the calls it made (acquire, set up,
  release) with its error, an exit function returns the calls it makes. Replaying the calls
  shows leaks and double releases. The locale \<open>kernel_module\<close> is what the kernel expects of
  a module; \<open>ordered_module\<close> adds that nothing is released while something that uses it is
  still registered.
\<close>

datatype 'r kevent = Acquire 'r | Setup 'r | Release 'r

text \<open>\<open>Raw\<close> is allocated but not initialised, \<open>Gone\<close> is released.\<close>

datatype slot = Absent | Raw | Ready | Gone

type_synonym 'r slots = "'r \<Rightarrow> slot"

definition no_slots :: "'r slots" where
  "no_slots = (\<lambda>r. Absent)"

definition is_held :: "slot \<Rightarrow> bool" where
  "is_held s \<longleftrightarrow> s = Raw \<or> s = Ready"

definition held :: "'r slots \<Rightarrow> 'r set" where
  "held m = {r. is_held (m r)}"

fun apply_event :: "'r kevent \<Rightarrow> 'r slots \<Rightarrow> 'r slots option" where
  "apply_event (Acquire r) m = (if is_held (m r) then None else Some (m(r := Raw)))"
| "apply_event (Setup r) m = (if m r = Raw then Some (m(r := Ready)) else None)"
| "apply_event (Release r) m = (if is_held (m r) then Some (m(r := Gone)) else None)"

fun replay :: "'r kevent list \<Rightarrow> 'r slots \<Rightarrow> 'r slots option" where
  "replay [] m = Some m"
| "replay (e # es) m = (case apply_event e m of None \<Rightarrow> None | Some m' \<Rightarrow> replay es m')"

lemma is_held_simps [simp]:
  "is_held Raw" "is_held Ready" "\<not> is_held Absent" "\<not> is_held Gone"
  by (simp_all add: is_held_def)

lemma held_no_slots [simp]: "held no_slots = {}"
  by (simp add: held_def no_slots_def)

lemma held_upd [simp]:
  "held (m(r := s)) = (if is_held s then insert r (held m) else held m - {r})"
  by (auto simp: held_def)

lemma in_held [simp]: "r \<in> held m \<longleftrightarrow> is_held (m r)"
  by (simp add: held_def)

lemma held_empty_iff: "held m = {} \<longleftrightarrow> (\<forall>r. \<not> is_held (m r))"
  by (auto simp: held_def)

lemma replay_append:
  "replay (xs @ ys) m = (case replay xs m of None \<Rightarrow> None | Some m' \<Rightarrow> replay ys m')"
  by (induction xs arbitrary: m) (auto split: option.split)

text \<open>No moment of the run has \<open>r\<close> in place without all that it needs.\<close>

definition needs_met :: "('r \<Rightarrow> 'r set) \<Rightarrow> 'r slots \<Rightarrow> bool" where
  "needs_met needs m \<longleftrightarrow> (\<forall>r \<in> held m. needs r \<subseteq> held m)"

fun well_ordered :: "('r \<Rightarrow> 'r set) \<Rightarrow> 'r kevent list \<Rightarrow> 'r slots \<Rightarrow> bool" where
  "well_ordered needs [] m \<longleftrightarrow> needs_met needs m"
| "well_ordered needs (e # es) m \<longleftrightarrow>
     needs_met needs m \<and>
     (case apply_event e m of None \<Rightarrow> False | Some m' \<Rightarrow> well_ordered needs es m')"

lemma needs_met_empty: "held m = {} \<Longrightarrow> needs_met needs m"
  by (simp add: needs_met_def)

lemma well_ordered_append:
  "well_ordered needs (xs @ ys) m \<longleftrightarrow>
     well_ordered needs xs m \<and> (\<forall>m'. replay xs m = Some m' \<longrightarrow> well_ordered needs ys m')"
proof (induction xs arbitrary: m)
  case Nil
  then show ?case by (cases ys) auto
next
  case (Cons x xs)
  then show ?case by (auto split: option.splits)
qed

locale kernel_module =
  fixes init :: "'env \<Rightarrow> 'r kevent list \<times> errno option"
    and exit_mod :: "'r kevent list"
  assumes failed_init: "held m = {} \<Longrightarrow> snd (init env) = Some e \<Longrightarrow>
      \<exists>m'. replay (fst (init env)) m = Some m' \<and> held m' = {}"
    and init_exit: "held m = {} \<Longrightarrow> snd (init env) = None \<Longrightarrow>
      \<exists>m'. replay (fst (init env) @ exit_mod) m = Some m' \<and> held m' = {}"

text \<open>A session is one \<open>insmod\<close>, followed by \<open>rmmod\<close> if it succeeded.\<close>

definition session :: "('env \<Rightarrow> 'r kevent list \<times> errno option) \<Rightarrow> 'r kevent list \<Rightarrow> 'env \<Rightarrow> 'r kevent list" where
  "session init exit_mod env =
     (case snd (init env) of None \<Rightarrow> fst (init env) @ exit_mod | Some e \<Rightarrow> fst (init env))"

definition sessions :: "('env \<Rightarrow> 'r kevent list \<times> errno option) \<Rightarrow> 'r kevent list \<Rightarrow> 'env list \<Rightarrow> 'r kevent list" where
  "sessions init exit_mod envs = concat (map (session init exit_mod) envs)"

context kernel_module begin

lemma session_clean:
  "held m = {} \<Longrightarrow> \<exists>m'. replay (session init exit_mod env) m = Some m' \<and> held m' = {}"
  using failed_init init_exit by (auto simp: session_def split: option.split)

lemma sessions_clean:
  "held m = {} \<Longrightarrow> \<exists>m'. replay (sessions init exit_mod envs) m = Some m' \<and> held m' = {}"
proof (induction envs arbitrary: m)
  case Nil
  then show ?case by (simp add: sessions_def)
next
  case (Cons env envs)
  from session_clean [OF Cons.prems] obtain m1 where
    "replay (session init exit_mod env) m = Some m1" "held m1 = {}" by blast
  with Cons.IH [of m1] show ?case by (simp add: sessions_def replay_append)
qed

end

locale ordered_module = kernel_module init exit_mod
  for init :: "'env \<Rightarrow> 'r kevent list \<times> errno option" and exit_mod :: "'r kevent list" +
  fixes needs :: "'r \<Rightarrow> 'r set"
  assumes session_ordered: "held m = {} \<Longrightarrow> well_ordered needs (session init exit_mod env) m"

context ordered_module begin

lemma sessions_ordered:
  "held m = {} \<Longrightarrow> well_ordered needs (sessions init exit_mod envs) m"
proof (induction envs arbitrary: m)
  case Nil
  then show ?case by (simp add: sessions_def needs_met_empty)
next
  case (Cons env envs)
  have "well_ordered needs (sessions init exit_mod envs) m1"
    if "replay (session init exit_mod env) m = Some m1" for m1
    using session_clean [OF Cons.prems, of env] that Cons.IH by auto
  then show ?case
    using session_ordered [OF Cons.prems, of env] by (simp add: sessions_def well_ordered_append)
qed

end

end
