(* ===== verification/Fortune_Module.thy ===== *)
theory Fortune_Module
  imports Kmodule
begin

text \<open>
  Loading and unloading the module of \<open>lab_04/lkm-3/md.c\<close>: \<open>fortune_init\<close> with the outcome
  of its four allocating calls as parameters, and \<open>fortune_exit\<close>.
\<close>

datatype fortune_res = Pot | Proc_file | Proc_dir | Proc_link

record fortune_env =
  vmalloc_ok :: bool
  proc_create_ok :: bool
  proc_mkdir_ok :: bool
  proc_symlink_ok :: bool

definition fortune_init :: "fortune_env \<Rightarrow> fortune_res kevent list \<times> errno option" where
  "fortune_init env =
     (if \<not> vmalloc_ok env then ([], Some ENOMEM)
      else
        let t1 = [Acquire Pot, Setup Pot] in
        if \<not> proc_create_ok env then (t1 @ [Release Pot], Some ENOMEM)
        else
          let t2 = t1 @ [Acquire Proc_file] in
          if \<not> proc_mkdir_ok env then (t2 @ [Release Proc_file, Release Pot], Some ENOMEM)
          else
            let t3 = t2 @ [Acquire Proc_dir] in
            if \<not> proc_symlink_ok env
            then (t3 @ [Release Proc_dir, Release Proc_file, Release Pot], Some ENOMEM)
            else (t3 @ [Acquire Proc_link], None))"

definition fortune_exit :: "fortune_res kevent list" where
  "fortune_exit = [Release Proc_link, Release Proc_dir, Release Proc_file, Release Pot]"

text \<open>The handlers behind the proc file use the pot.\<close>

fun fortune_needs :: "fortune_res \<Rightarrow> fortune_res set" where
  "fortune_needs Proc_file = {Pot}"
| "fortune_needs _ = {}"

interpretation fortune_mod: ordered_module fortune_init fortune_exit fortune_needs
proof unfold_locales
  fix m :: "fortune_res slots" and env e
  assume m: "held m = {}"
  then have free: "\<not> is_held (m r)" for r by (simp add: held_empty_iff)
  note unf = fortune_init_def fortune_exit_def Let_def free m
  show "snd (fortune_init env) = Some e \<Longrightarrow>
      \<exists>m'. replay (fst (fortune_init env)) m = Some m' \<and> held m' = {}"
    by (auto simp: unf split: if_splits)
  show "snd (fortune_init env) = None \<Longrightarrow>
      \<exists>m'. replay (fst (fortune_init env) @ fortune_exit) m = Some m' \<and> held m' = {}"
    by (auto simp: unf split: if_splits)
  show "well_ordered fortune_needs (session fortune_init fortune_exit env) m"
    by (auto simp: session_def unf needs_met_def split: if_splits)
qed

section \<open>Properties\<close>

text \<open>
  No leak and no dangling handler. However often the module is loaded and unloaded, and
  whichever of its allocations fail, every resource it acquires is released exactly once,
  nothing is held at the end, and at no moment does the proc file exist without the pot its
  handlers use.
\<close>

lemma fortune_module_clean:
  "\<exists>m. replay (sessions fortune_init fortune_exit envs) no_slots = Some m \<and> held m = {} \<and>
     well_ordered fortune_needs (sessions fortune_init fortune_exit envs) no_slots"
  using fortune_mod.sessions_clean [of no_slots envs] fortune_mod.sessions_ordered [of no_slots envs]
  by simp

end
