(* ===== verification/Printf.thy ===== *)
theory Printf
  imports Prelude
begin

text \<open>
  Number conversions of the \<open>printf\<close> family: \<open>%d\<close>, \<open>%i\<close> and \<open>%lu\<close> print in base 10, \<open>%lx\<close> in
  base 16. The lemmas say that the digits can be read back and bound the length of the text,
  which is what the buffer arguments of the programs need.
\<close>

definition digit :: "nat \<Rightarrow> char" where
  "digit d = ''0123456789abcdef'' ! d"

definition digit_val :: "char \<Rightarrow> nat" where
  "digit_val c = (let n = of_char c in if n < 58 then n - 48 else n - 87)"

fun num :: "nat \<Rightarrow> nat \<Rightarrow> char list" where
  "num b n = (if b < 2 \<or> n < b then [digit n] else num b (n div b) @ [digit (n mod b)])"

declare num.simps [simp del]

abbreviation dec :: "nat \<Rightarrow> char list" where
  "dec \<equiv> num 10"

abbreviation hex :: "nat \<Rightarrow> char list" where
  "hex \<equiv> num 16"

definition dec_int :: "int \<Rightarrow> char list" where
  "dec_int i = (if i < 0 then CHR 0x2D # dec (nat (- i)) else dec (nat i))"

definition unnum :: "nat \<Rightarrow> char list \<Rightarrow> nat" where
  "unnum b s = foldl (\<lambda>a c. b * a + digit_val c) 0 s"

lemma digit_val_digit: "d < 16 \<Longrightarrow> digit_val (digit d) = d"
proof -
  have "\<forall>d \<in> set [0..<16]. digit_val (digit d) = d" by code_simp
  then show "d < 16 \<Longrightarrow> digit_val (digit d) = d" by simp
qed

lemma unnum_snoc: "unnum b (s @ [c]) = b * unnum b s + digit_val c"
  by (simp add: unnum_def)

lemma unnum_single: "unnum b [c] = digit_val c"
  by (simp add: unnum_def)

lemma unnum_num: "2 \<le> b \<Longrightarrow> b \<le> 16 \<Longrightarrow> unnum b (num b n) = n"
proof (induction b n rule: num.induct)
  case (1 b n)
  show ?case
  proof (cases "n < b")
    case True
    then show ?thesis
      using 1 by (simp add: num.simps [of b n] unnum_single digit_val_digit)
  next
    case False
    with 1 have "unnum b (num b (n div b)) = n div b" by simp
    moreover have "digit_val (digit (n mod b)) = n mod b"
      using 1 by (intro digit_val_digit) (simp add: order.strict_trans2 [of _ b])
    ultimately show ?thesis
      using False 1 by (simp add: num.simps [of b n] unnum_snoc)
  qed
qed

lemma num_inj: "2 \<le> b \<Longrightarrow> b \<le> 16 \<Longrightarrow> num b n = num b m \<longleftrightarrow> n = m"
  by (metis unnum_num)

lemma num_not_Nil [simp]: "num b n \<noteq> []"
  by (subst num.simps) simp

lemma num_length_le: "2 \<le> b \<Longrightarrow> n < b ^ k \<Longrightarrow> 0 < k \<Longrightarrow> length (num b n) \<le> k"
proof (induction k arbitrary: n)
  case 0
  then show ?case by simp
next
  case (Suc k)
  show ?case
  proof (cases "n < b")
    case True
    then show ?thesis by (simp add: num.simps [of b n])
  next
    case False
    have "k \<noteq> 0" using False Suc.prems by (cases k) auto
    moreover have "n div b < b ^ k"
      using Suc.prems by (simp add: less_mult_imp_div_less mult.commute)
    ultimately show ?thesis
      using Suc.IH [of "n div b"] False Suc.prems by (simp add: num.simps [of b n])
  qed
qed

lemma digit_not_nul: "d < 16 \<Longrightarrow> digit d \<noteq> nul"
proof -
  have "\<forall>d \<in> set [0..<16]. digit d \<noteq> nul" by code_simp
  then show "d < 16 \<Longrightarrow> digit d \<noteq> nul" by simp
qed

lemma num_nul_free: "2 \<le> b \<Longrightarrow> b \<le> 16 \<Longrightarrow> nul_free (num b n)"
proof (induction b n rule: num.induct)
  case (1 b n)
  show ?case
  proof (cases "n < b")
    case True
    then show ?thesis
      using 1 by (simp add: num.simps [of b n] digit_not_nul)
  next
    case False
    have "n mod b < 16" using 1 by (simp add: order.strict_trans2 [of _ b])
    then show ?thesis
      using False 1 by (simp add: num.simps [of b n] digit_not_nul)
  qed
qed

lemma dec_nul_free [simp]: "nul_free (dec n)" "nul_free (dec_int i)"
  by (simp_all add: num_nul_free dec_int_def)

lemma dec_int_of_nat: "dec_int (int n) = dec n"
  by (simp add: dec_int_def)

lemma dec_int_length_32:
  assumes "- 2147483648 \<le> i" "i < 2147483648"
  shows "length (dec_int i) \<le> 11"
proof (cases "i < 0")
  case True
  then show ?thesis
    using num_length_le [of 10 "nat (- i)" 10] assms by (simp add: dec_int_def nat_less_iff)
next
  case False
  then show ?thesis
    using num_length_le [of 10 "nat i" 10] assms by (simp add: dec_int_def nat_less_iff)
qed

text \<open>Evaluation rules: the condition is decided before the recursive call is unfolded.\<close>

lemma num_small: "n < b \<Longrightarrow> num b n = [digit n]"
  by (simp add: num.simps)

lemma num_big: "2 \<le> b \<Longrightarrow> b \<le> n \<Longrightarrow> num b n = num b (n div b) @ [digit (n mod b)]"
  by (simp add: num.simps [of b n])

lemmas num_eval = num_small num_big digit_def

lemma dec_examples: "dec 0 = ''0''" "dec 1907 = ''1907''" "hex 48879 = ''beef''"
  by (simp_all add: num_eval)

end
