(* ===== verification/Keyboard.thy ===== *)
theory Keyboard
  imports Kmodule Printf
begin

text \<open>
  What the two keyboard modules of \<open>lab_07\<close> share: the key names of \<open>layout.h\<close>, the pointers to
  kernel memory that an interrupt handler follows, and the events of a run, interrupts with
  the byte read from port 0x60 and executions of the deferred work. \<open>key_message\<close> is what one
  scan code should put into the log.
\<close>

section \<open>The layout table\<close>

definition layout :: "char list list" where
  "layout =
   [''Reserved'', ''Esc'', ''1'', ''2'', ''3'', ''4'', ''5'', ''6'', ''7'', ''8'', ''9'', ''0'',
    ''-'', ''='', ''Backspace'', ''Tab'', ''q'', ''w'', ''e'', ''r'', ''t'', ''y'', ''u'', ''i'',
    ''o'', ''p'', ''['', '']'', ''Enter'', ''Left Ctrl'', ''a'', ''s'', ''d'', ''f'', ''g'', ''h'',
    ''j'', ''k'', ''l'', '';'', [CHR 0x27], [CHR 0x60], ''Left Shift'', [CHR 0x5C], ''z'', ''x'',
    ''c'', ''v'', ''b'', ''n'', ''m'', '','', ''.'', ''/'', ''Right Shift'', ''Keypad *'',
    ''Left Alt'', ''Space'', ''Caps Lock'', ''F1'', ''F2'', ''F3'', ''F4'', ''F5'', ''F6'', ''F7'',
    ''F8'', ''F9'', ''F10'', ''Num Lock'', ''Scroll Lock'', ''Keypad 7 '' @ [CHR 0x5C] @ '' Home'',
    ''Keypad 8 '' @ [CHR 0x5C] @ '' Up'', ''Keypad 9 '' @ [CHR 0x5C] @ '' PgUp'', ''Keypad -'',
    ''Keypad 4 '' @ [CHR 0x5C] @ '' Left'', ''Keypad 5'', ''Keypad 6 '' @ [CHR 0x5C] @ '' Right'',
    ''Keypad +'', ''Keypad 1 '' @ [CHR 0x5C] @ '' End'', ''Keypad 2 '' @ [CHR 0x5C] @ '' Down'',
    ''Keypad 3 '' @ [CHR 0x5C] @ '' PgDn'', ''Keypad 0 '' @ [CHR 0x5C] @ '' Ins'',
    ''Keypad Dot '' @ [CHR 0x5C] @ '' Delete'', [], ''Unknown'', ''<'', ''F11'', ''F12'']"

definition LAYOUT_LEN :: nat where
  \<comment> \<open>\<open>ARRAY_SIZE(layout)\<close>\<close>
  "LAYOUT_LEN = length layout"

lemma LAYOUT_LEN_eq: "LAYOUT_LEN = 89" "length layout = 89"
  by (simp_all add: LAYOUT_LEN_def layout_def)

definition array_at :: "'a list \<Rightarrow> nat \<Rightarrow> 'a may_fault" where
  "array_at a i = (if i < length a then Inr (a ! i) else Inl Out_Of_Bounds)"

definition newline :: "char list" where
  "newline = [CHR 0x0A]"

text \<open>
  Bit 7 of a scan code tells a released key; the modules report releases, by the name of the
  key, and say UNKNOWN for codes the table does not have.
\<close>

definition key_message :: "char list \<Rightarrow> u8 \<Rightarrow> char list list" where
  "key_message p c =
     (if unat c < 128 then []
      else
        let k = unat c - 128 in
        [p @ '': '' @ (if k < 89 then layout ! k else ''UNKNOWN'') @ '' ('' @ dec k @ '')'' @ newline])"

section \<open>Pointers to kernel memory\<close>

datatype 'a kptr = KNull | KRaw | KLive 'a | KFreed

fun deref :: "'a kptr \<Rightarrow> 'a may_fault" where
  "deref KNull = Inl Null_Deref"
| "deref KRaw = Inl Uninitialised"
| "deref (KLive x) = Inr x"
| "deref KFreed = Inl Use_After_Free"

text \<open>A field of allocated memory may be stored to before the object is initialised.\<close>

fun kstore :: "'a kptr \<Rightarrow> unit may_fault" where
  "kstore KNull = Inl Null_Deref"
| "kstore KFreed = Inl Use_After_Free"
| "kstore _ = Inr ()"

datatype irqreturn = IRQ_NONE | IRQ_HANDLED

section \<open>Events\<close>

text \<open>\<open>Run w\<close> is the moment at which the deferred function of work item \<open>w\<close> reads its code.\<close>

datatype 'w kbd_event = Irq int u8 | Run 'w

text \<open>The codes that item \<open>w\<close> reads: at each run, the byte of the latest keyboard interrupt.\<close>

fun seen_by :: "'w \<Rightarrow> u8 \<Rightarrow> 'w kbd_event list \<Rightarrow> u8 list" where
  "seen_by w c [] = []"
| "seen_by w c (Irq n b # evs) = seen_by w (if n = 1 then b else c) evs"
| "seen_by w c (Run v # evs) = (if v = w then c # seen_by w c evs else seen_by w c evs)"

lemma seen_by_prompt:
  "seen_by w c (concat (map (\<lambda>b. [Irq 1 b, Run w]) bs)) = bs"
  by (induction bs arbitrary: c) auto

section \<open>Scan code arithmetic\<close>

lemma unat_u8_less: "unat (c :: u8) < 256"
  using unsigned_less [of c, where ?'a = nat] by simp

lemma unat_ucast_u8:
  "unat (ucast (c :: u8) :: u64) = unat c" "unat (ucast (c :: u8) :: u32) = unat c"
  using unat_u8_less [of c] by (simp_all add: unsigned_ucast_eq take_bit_nat_eq_self)

lemma and_0x80_iff: "(w :: 'a::len word) AND 2 ^ 7 = 0 \<longleftrightarrow> even (unat w div 128)"
proof -
  have "w AND 2 ^ 7 = 0 \<longleftrightarrow> \<not> bit w 7"
    by (rule and_exp_eq_0_iff_not_bit)
  moreover have "bit w 7 \<longleftrightarrow> bit (unat w) 7"
    by (metis bit_unsigned_iff possible_bit_nat possible_bit_def bit_imp_possible_bit)
  moreover have "bit (unat w) 7 \<longleftrightarrow> odd (unat w div 128)"
    by (simp add: bit_iff_odd)
  ultimately show ?thesis by simp
qed

lemma even_div_128: "n < 256 \<Longrightarrow> even (n div 128) \<longleftrightarrow> n < (128::nat)"
proof -
  assume "n < 256"
  then consider "n < 128" | "n div 128 = 1" by linarith
  then show ?thesis by cases auto
qed

lemma released_iff:
  "(ucast (c :: u8) :: u64) AND 0x80 = 0 \<longleftrightarrow> unat c < 128"
  "(ucast (c :: u8) :: u32) AND 0x80 = 0 \<longleftrightarrow> unat c < 128"
  using and_0x80_iff [of "ucast c :: u64"] and_0x80_iff [of "ucast c :: u32"] unat_u8_less [of c]
  by (simp_all add: unat_ucast_u8 even_div_128)

lemma and_0x7F: "unat ((w :: 'a::len word) AND mask 7) = unat w mod 128"
proof -
  have "w AND mask 7 = take_bit 7 w"
    by (simp only: take_bit_eq_mask)
  then have "unat (w AND mask 7) = take_bit 7 (unat w)"
    by (simp only: unsigned_take_bit_eq)
  then show ?thesis by (simp only: take_bit_eq_mod) simp
qed

lemma key_index:
  "unat ((ucast (c :: u8) :: u64) AND 0x7F) = unat c mod 128"
  "unat ((ucast (c :: u8) :: u32) AND 0x7F) = unat c mod 128"
  using and_0x7F [of "ucast c :: u64"] and_0x7F [of "ucast c :: u32"]
  by (simp_all add: unat_ucast_u8 mask_eq_exp_minus_1)

lemma mod_128_released: "128 \<le> n \<Longrightarrow> n < 256 \<Longrightarrow> n mod 128 = n - (128::nat)"
  by (simp add: le_mod_geq)

end
