(* ===== verification/Tasklet_Module.thy ===== *)
theory Tasklet_Module
  imports Keyboard
begin

text \<open>
  The tasklet module of \<open>lab_07/tasklet.c\<close>. The state holds the pointer \<open>tasklet\<close> with the
  \<open>data\<close> field behind it, \<open>layout_size\<close>, whether the interrupt line is registered, and the
  kernel log without level tags. \<open>my_tasklet_init\<close> and \<open>my_tasklet_exit\<close> are the statements they
  execute, so that an interrupt can be placed between any two of them.
\<close>

section \<open>State and handlers\<close>

record tasklet_mod =
  tasklet :: "u64 kptr"
  layout_size :: u64
  irq_on :: bool
  klog :: "char list list"

definition IRQ_NO :: int where
  "IRQ_NO = 1"

definition tasklet_function :: "u64 \<Rightarrow> u64 \<Rightarrow> char list list may_fault" where
  "tasklet_function lsize code =
     (if code AND 0x80 = 0 then Inr []
      else
        let code = code AND 0x7F in
        if code < lsize then
          rbind (array_at layout (unat code)) (\<lambda>name.
            Inr [''tasklet: '' @ name @ '' ('' @ dec (unat code) @ '')'' @ newline])
        else Inr [''tasklet: UNKNOWN ('' @ dec (unat code) @ '')'' @ newline])"

definition irq_handler_tasklet ::
  "int \<Rightarrow> u8 \<Rightarrow> tasklet_mod \<Rightarrow> (tasklet_mod \<times> irqreturn) may_fault" where
  "irq_handler_tasklet irq_no byte s =
     (if IRQ_NO = irq_no then
        rbind (kstore (tasklet s)) (\<lambda>_. \<comment> \<open>\<open>tasklet->data = inb(0x60)\<close>\<close>
        rbind (deref (tasklet s)) (\<lambda>_. \<comment> \<open>\<open>tasklet_schedule(tasklet)\<close>\<close>
          Inr (s\<lparr>tasklet := KLive (ucast byte)\<rparr>, IRQ_HANDLED)))
      else Inr (s, IRQ_NONE))"

section \<open>Loading and unloading\<close>

datatype tstmt = Request_irq | Kmalloc_tasklet | Tasklet_init | Set_layout_size
  | Tasklet_kill | Kfree_tasklet | Free_irq

record tasklet_env =
  request_irq_rc :: "errno option"
  kmalloc_ok :: bool

definition my_tasklet_init :: "tasklet_env \<Rightarrow> tstmt list \<times> errno option" where
  "my_tasklet_init env =
     (case request_irq_rc env of
        Some e \<Rightarrow> ([], Some e)
      | None \<Rightarrow>
          if \<not> kmalloc_ok env then ([Request_irq, Free_irq], Some ENOMEM)
          else ([Request_irq, Kmalloc_tasklet, Tasklet_init, Set_layout_size], None))"

definition my_tasklet_exit :: "tstmt list" where
  "my_tasklet_exit = [Tasklet_kill, Kfree_tasklet, Free_irq]"

fun tasklet_exec :: "tstmt \<Rightarrow> tasklet_mod \<Rightarrow> tasklet_mod" where
  "tasklet_exec Request_irq s = s\<lparr>irq_on := True\<rparr>"
| "tasklet_exec Kmalloc_tasklet s = s\<lparr>tasklet := KRaw\<rparr>"
| "tasklet_exec Tasklet_init s = s\<lparr>tasklet := KLive 0\<rparr>"
| "tasklet_exec Set_layout_size s = s\<lparr>layout_size := of_nat LAYOUT_LEN\<rparr>"
| "tasklet_exec Tasklet_kill s = s"
| "tasklet_exec Kfree_tasklet s = s\<lparr>tasklet := KFreed\<rparr>"
| "tasklet_exec Free_irq s = s\<lparr>irq_on := False\<rparr>"

definition tasklet_boot :: tasklet_mod where
  \<comment> \<open>the static initialisers\<close>
  "tasklet_boot = \<lparr>tasklet = KNull, layout_size = 0, irq_on = False, klog = []\<rparr>"

definition tasklet_after :: "tstmt list \<Rightarrow> tasklet_mod" where
  "tasklet_after stmts = fold tasklet_exec stmts tasklet_boot"

section \<open>Interrupts and runs of the tasklet\<close>

text \<open>An interrupt reaches the handler while the line is registered.\<close>

fun tasklet_event :: "unit kbd_event \<Rightarrow> tasklet_mod \<Rightarrow> tasklet_mod may_fault" where
  "tasklet_event (Irq n byte) s =
     (if irq_on s then rbind (irq_handler_tasklet n byte s) (\<lambda>(s', _). Inr s') else Inr s)"
| "tasklet_event (Run _) s =
     rbind (deref (tasklet s)) (\<lambda>data.
       rbind (tasklet_function (layout_size s) data) (\<lambda>out. Inr (s\<lparr>klog := klog s @ out\<rparr>)))"

fun tasklet_run :: "unit kbd_event list \<Rightarrow> tasklet_mod \<Rightarrow> tasklet_mod may_fault" where
  "tasklet_run [] s = Inr s"
| "tasklet_run (e # es) s = rbind (tasklet_event e s) (tasklet_run es)"

section \<open>The message of a scan code\<close>

lemma tasklet_function_message:
  "tasklet_function (of_nat LAYOUT_LEN) (ucast (c :: u8)) = Inr (key_message ''tasklet'' c)"
proof (cases "unat c < 128")
  case True
  then show ?thesis
    by (simp add: tasklet_function_def key_message_def released_iff)
next
  case False
  let ?k = "(ucast c :: u64) AND 0x7F"
  have k: "unat ?k = unat c - 128"
    using False unat_u8_less [of c] by (simp only: key_index) (simp add: mod_128_released)
  have less: "?k < 89 \<longleftrightarrow> unat c - 128 < 89"
    using k by (simp add: word_less_nat_alt)
  show ?thesis
    using False
    by (simp add: tasklet_function_def key_message_def released_iff Let_def k less
        LAYOUT_LEN_eq array_at_def)
qed

definition tasklet_ready :: "u8 \<Rightarrow> tasklet_mod \<Rightarrow> bool" where
  "tasklet_ready c s \<longleftrightarrow>
     tasklet s = KLive (ucast c) \<and> layout_size s = of_nat LAYOUT_LEN \<and> irq_on s"

lemma tasklet_run_ready:
  "tasklet_ready c s \<Longrightarrow>
     \<exists>s'. tasklet_run evs s = Inr s' \<and> (\<exists>c'. tasklet_ready c' s') \<and>
       klog s' = klog s @ concat (map (key_message ''tasklet'') (seen_by () c evs))"
proof (induction evs arbitrary: c s)
  case Nil
  then show ?case by auto
next
  case (Cons e evs)
  show ?case
  proof (cases e)
    case (Irq n b)
    let ?s = "if n = 1 then s\<lparr>tasklet := KLive (ucast b)\<rparr> else s"
    have step: "tasklet_event e s = Inr ?s"
      using Cons.prems by (simp add: Irq tasklet_ready_def irq_handler_tasklet_def IRQ_NO_def)
    have "tasklet_ready (if n = 1 then b else c) ?s"
      using Cons.prems by (simp add: tasklet_ready_def)
    from Cons.IH [OF this] show ?thesis
      using step by (auto simp: Irq)
  next
    case (Run u)
    let ?s = "s\<lparr>klog := klog s @ key_message ''tasklet'' c\<rparr>"
    have step: "tasklet_event e s = Inr ?s"
      using Cons.prems by (simp add: Run tasklet_ready_def tasklet_function_message)
    have "tasklet_ready c ?s"
      using Cons.prems by (simp add: tasklet_ready_def)
    from Cons.IH [OF this] show ?thesis
      using step by (auto simp: Run)
  qed
qed

lemma tasklet_loaded:
  "snd (my_tasklet_init env) = None \<Longrightarrow> tasklet_ready 0 (tasklet_after (fst (my_tasklet_init env)))"
  "snd (my_tasklet_init env) = None \<Longrightarrow> klog (tasklet_after (fst (my_tasklet_init env))) = []"
  by (auto simp: my_tasklet_init_def tasklet_after_def tasklet_boot_def tasklet_ready_def
      split: option.splits if_splits)

section \<open>Resources\<close>

datatype tasklet_res = Irq_line | Tasklet_mem

fun tasklet_calls :: "tstmt \<Rightarrow> tasklet_res kevent list" where
  "tasklet_calls Request_irq = [Acquire Irq_line]"
| "tasklet_calls Kmalloc_tasklet = [Acquire Tasklet_mem]"
| "tasklet_calls Tasklet_init = [Setup Tasklet_mem]"
| "tasklet_calls Kfree_tasklet = [Release Tasklet_mem]"
| "tasklet_calls Free_irq = [Release Irq_line]"
| "tasklet_calls _ = []"

definition tasklet_insmod :: "tasklet_env \<Rightarrow> tasklet_res kevent list \<times> errno option" where
  "tasklet_insmod env =
     (case my_tasklet_init env of (ss, e) \<Rightarrow> (concat (map tasklet_calls ss), e))"

definition tasklet_rmmod :: "tasklet_res kevent list" where
  "tasklet_rmmod = concat (map tasklet_calls my_tasklet_exit)"

interpretation tasklet_module: kernel_module tasklet_insmod tasklet_rmmod
proof unfold_locales
  fix m :: "tasklet_res slots" and env e
  assume m: "held m = {}"
  then have free: "\<not> is_held (m r)" for r by (simp add: held_empty_iff)
  note unf = tasklet_insmod_def tasklet_rmmod_def my_tasklet_init_def my_tasklet_exit_def free m
  show "snd (tasklet_insmod env) = Some e \<Longrightarrow>
      \<exists>m'. replay (fst (tasklet_insmod env)) m = Some m' \<and> held m' = {}"
    by (auto simp: unf split: if_splits option.splits)
  show "snd (tasklet_insmod env) = None \<Longrightarrow>
      \<exists>m'. replay (fst (tasklet_insmod env) @ tasklet_rmmod) m = Some m' \<and> held m' = {}"
    by (auto simp: unf split: if_splits option.splits)
qed

section \<open>Properties\<close>

text \<open>
  C18: the log of the tasklet module. Once \<open>my_tasklet_init\<close> has returned 0, no sequence of
  interrupts and tasklet runs makes the module touch memory it should not, and every run logs
  exactly the message of the latest keyboard scan code; interrupts of other lines have no effect.
  In particular, when the tasklet runs after each interrupt, the log is the
  messages of all codes in order.
\<close>

theorem tasklet_logs_latest:
  assumes "snd (my_tasklet_init env) = None"
  shows "\<exists>s. tasklet_run evs (tasklet_after (fst (my_tasklet_init env))) = Inr s \<and>
      klog s = concat (map (key_message ''tasklet'') (seen_by () 0 evs)) \<and>
      (\<forall>bs. evs = concat (map (\<lambda>b. [Irq 1 b, Run ()]) bs) \<longrightarrow>
         klog s = concat (map (key_message ''tasklet'') bs))"
  using tasklet_run_ready [OF tasklet_loaded(1) [OF assms], of evs] tasklet_loaded(2) [OF assms]
  by (auto simp: seen_by_prompt)

theorem tasklet_logs_latest_witness:
  "\<exists>s. tasklet_run [Irq 1 0x9E, Run (), Irq 1 0x30, Irq 1 0xB0, Irq 1 0xFF, Run ()]
        (tasklet_after [Request_irq, Kmalloc_tasklet, Tasklet_init, Set_layout_size]) = Inr s \<and>
     klog s = [''tasklet: a (30)'' @ newline, ''tasklet: UNKNOWN (127)'' @ newline]"
proof -
  let ?env = "\<lparr>request_irq_rc = None, kmalloc_ok = True\<rparr>"
  have init: "my_tasklet_init ?env =
      ([Request_irq, Kmalloc_tasklet, Tasklet_init, Set_layout_size], None)"
    by (simp add: my_tasklet_init_def)
  have "layout ! 30 = ''a''" by (simp add: layout_def)
  then show ?thesis
    using tasklet_logs_latest [of ?env "[Irq 1 0x9E, Run (), Irq 1 0x30, Irq 1 0xB0, Irq 1 0xFF, Run ()]"] init
    by (auto simp: key_message_def num_eval Let_def simp del: tasklet_run.simps)
qed

text \<open>
  C28: where an interrupt is dangerous. The handler is registered before the tasklet exists and
  unregistered after it is freed. For a keyboard interrupt that arrives after the first \<open>k\<close>
  statements of a load and unload: it is not delivered before the first or after the last,
  it dereferences NULL after the first, schedules uninitialised memory after the second,
  is handled from the third until the memory is freed, and writes to freed memory between
  \<open>kfree\<close> and \<open>free_irq\<close>.
\<close>

theorem tasklet_irq_window:
  assumes "snd (my_tasklet_init env) = None" and "k \<le> 7"
  shows "tasklet_event (Irq 1 byte)
       (tasklet_after (take k (fst (my_tasklet_init env) @ my_tasklet_exit))) =
     (let s = tasklet_after (take k (fst (my_tasklet_init env) @ my_tasklet_exit)) in
      if k = 0 \<or> k = 7 then Inr s
      else if k = 1 then Inl Null_Deref
      else if k = 2 then Inl Uninitialised
      else if k = 6 then Inl Use_After_Free
      else Inr (s\<lparr>tasklet := KLive (ucast byte)\<rparr>))"
proof -
  have "fst (my_tasklet_init env) = [Request_irq, Kmalloc_tasklet, Tasklet_init, Set_layout_size]"
    using assms(1) by (auto simp: my_tasklet_init_def split: option.splits if_splits)
  moreover have "k \<in> {0, 1, 2, 3, 4, 5, 6, 7}"
    using assms(2) by auto
  ultimately show ?thesis
    by (auto simp: my_tasklet_exit_def tasklet_after_def tasklet_boot_def irq_handler_tasklet_def
        IRQ_NO_def)
qed

theorem tasklet_irq_window_witness:
  "tasklet_event (Irq 1 0x9E) (tasklet_after [Request_irq]) = Inl Null_Deref"
proof -
  let ?env = "\<lparr>request_irq_rc = None, kmalloc_ok = True\<rparr>"
  have init: "my_tasklet_init ?env =
      ([Request_irq, Kmalloc_tasklet, Tasklet_init, Set_layout_size], None)"
    by (simp add: my_tasklet_init_def)
  show ?thesis
    using tasklet_irq_window [of ?env 1 "0x9E"] init by simp
qed

text \<open>
  Loading and unloading the tasklet module, any number of times and with any of its
  allocations failing, releases everything it acquired exactly once.
\<close>

lemma tasklet_module_clean:
  "\<exists>m. replay (sessions tasklet_insmod tasklet_rmmod envs) no_slots = Some m \<and> held m = {}"
  using tasklet_module.sessions_clean [of no_slots envs] by simp

end
