(* ===== verification/Workqueue_Module.thy ===== *)
theory Workqueue_Module
  imports Tasklet_Module
begin

text \<open>
  The work-queue module of \<open>lab_07/my-workqueue.c\<close>: the two work items with the \<open>int code\<close>
  behind each pointer, and otherwise the shape of the tasklet module. The second work function
  sleeps before it reads its item, so a \<open>Run Work2\<close> event is the moment after the sleep.
\<close>

section \<open>State and handlers\<close>

datatype work_item = Work1 | Work2

record workqueue_mod =
  work1 :: "u32 kptr"
  work2 :: "u32 kptr"
  workqueue :: "unit kptr"
  wq_layout_size :: u64
  wq_irq_on :: bool
  wq_log :: "char list list"

text \<open>\<open>code < layout_size\<close> compares an \<open>int\<close> with a \<open>size_t\<close>: the \<open>int\<close> is sign extended.\<close>

definition work_body :: "char list \<Rightarrow> u64 \<Rightarrow> u32 \<Rightarrow> char list list may_fault" where
  "work_body tag lsize code =
     (if code AND 0x80 = 0 then Inr []
      else
        let code = code AND 0x7F in
        if (scast code :: u64) < lsize then
          rbind (array_at layout (unat code)) (\<lambda>name.
            Inr [tag @ '': '' @ name @ '' ('' @ dec_int (sint code) @ '')'' @ newline])
        else Inr [tag @ '': UNKNOWN ('' @ dec_int (sint code) @ '')'' @ newline])"

definition work_function_1 :: "workqueue_mod \<Rightarrow> char list list may_fault" where
  "work_function_1 s = rbind (deref (work1 s)) (work_body ''workqueue'' (wq_layout_size s))"

definition work_function_2 :: "workqueue_mod \<Rightarrow> char list list may_fault" where
  "work_function_2 s = rbind (deref (work2 s)) (work_body ''workqueue2'' (wq_layout_size s))"

definition irq_handler_workqueue ::
  "int \<Rightarrow> u8 \<Rightarrow> workqueue_mod \<Rightarrow> (workqueue_mod \<times> irqreturn) may_fault" where
  "irq_handler_workqueue irq_no byte s =
     (if IRQ_NO = irq_no then
        let code = ucast byte in
        rbind (kstore (work1 s)) (\<lambda>_. \<comment> \<open>\<open>work1->code = code\<close>\<close>
        rbind (kstore (work2 s)) (\<lambda>_.
        rbind (deref (workqueue s)) (\<lambda>_. \<comment> \<open>\<open>queue_work(workqueue, work1)\<close>\<close>
        rbind (deref (work1 s)) (\<lambda>_.
        rbind (deref (work2 s)) (\<lambda>_. \<comment> \<open>\<open>queue_work(workqueue, work2)\<close>\<close>
          Inr (s\<lparr>work1 := KLive code, work2 := KLive code\<rparr>, IRQ_HANDLED))))))
      else Inr (s, IRQ_NONE))"

section \<open>Loading and unloading\<close>

datatype wstmt = W_request_irq | Create_workqueue | Kmalloc_work1 | Kmalloc_work2
  | Init_work1 | Init_work2 | W_layout_size | Flush_workqueue | Destroy_workqueue
  | Kfree_work1 | Kfree_work2 | W_free_irq

record workqueue_env =
  w_request_irq_rc :: "errno option"
  create_workqueue_ok :: bool
  kmalloc1_ok :: bool
  kmalloc2_ok :: bool

definition my_workqueue_init :: "workqueue_env \<Rightarrow> wstmt list \<times> errno option" where
  "my_workqueue_init env =
     (case w_request_irq_rc env of
        Some e \<Rightarrow> ([], Some e)
      | None \<Rightarrow>
          let t1 = [W_request_irq] in
          if \<not> create_workqueue_ok env then (t1 @ [W_free_irq], Some ENOMEM)
          else
            let t2 = t1 @ [Create_workqueue] in
            if \<not> kmalloc1_ok env then (t2 @ [W_free_irq, Destroy_workqueue], Some ENOMEM)
            else
              let t3 = t2 @ [Kmalloc_work1] in
              if \<not> kmalloc2_ok env
              then (t3 @ [W_free_irq, Destroy_workqueue, Kfree_work1], Some ENOMEM)
              else (t3 @ [Kmalloc_work2, Init_work1, Init_work2, W_layout_size], None))"

definition my_workqueue_exit :: "wstmt list" where
  "my_workqueue_exit =
     [Flush_workqueue, Destroy_workqueue, Kfree_work1, Kfree_work2, W_free_irq]"

fun workqueue_exec :: "wstmt \<Rightarrow> workqueue_mod \<Rightarrow> workqueue_mod" where
  "workqueue_exec W_request_irq s = s\<lparr>wq_irq_on := True\<rparr>"
| "workqueue_exec Create_workqueue s = s\<lparr>workqueue := KLive ()\<rparr>"
| "workqueue_exec Kmalloc_work1 s = s\<lparr>work1 := KRaw\<rparr>"
| "workqueue_exec Kmalloc_work2 s = s\<lparr>work2 := KRaw\<rparr>"
| "workqueue_exec Init_work1 s = s\<lparr>work1 := KLive 0\<rparr>"
| "workqueue_exec Init_work2 s = s\<lparr>work2 := KLive 0\<rparr>"
| "workqueue_exec W_layout_size s = s\<lparr>wq_layout_size := of_nat LAYOUT_LEN\<rparr>"
| "workqueue_exec Flush_workqueue s = s"
| "workqueue_exec Destroy_workqueue s = s\<lparr>workqueue := KFreed\<rparr>"
| "workqueue_exec Kfree_work1 s = s\<lparr>work1 := KFreed\<rparr>"
| "workqueue_exec Kfree_work2 s = s\<lparr>work2 := KFreed\<rparr>"
| "workqueue_exec W_free_irq s = s\<lparr>wq_irq_on := False\<rparr>"

definition workqueue_boot :: workqueue_mod where
  "workqueue_boot =
     \<lparr>work1 = KNull, work2 = KNull, workqueue = KNull, wq_layout_size = 0, wq_irq_on = False,
      wq_log = []\<rparr>"

definition workqueue_after :: "wstmt list \<Rightarrow> workqueue_mod" where
  "workqueue_after stmts = fold workqueue_exec stmts workqueue_boot"

section \<open>Events\<close>

fun workqueue_event :: "work_item kbd_event \<Rightarrow> workqueue_mod \<Rightarrow> workqueue_mod may_fault" where
  "workqueue_event (Irq n byte) s =
     (if wq_irq_on s then rbind (irq_handler_workqueue n byte s) (\<lambda>(s', _). Inr s') else Inr s)"
| "workqueue_event (Run Work1) s =
     rbind (work_function_1 s) (\<lambda>out. Inr (s\<lparr>wq_log := wq_log s @ out\<rparr>))"
| "workqueue_event (Run Work2) s =
     rbind (work_function_2 s) (\<lambda>out. Inr (s\<lparr>wq_log := wq_log s @ out\<rparr>))"


text \<open>What the log should be: both items see every interrupt, runs are logged in their order.\<close>

fun work_tag :: "work_item \<Rightarrow> char list" where
  "work_tag Work1 = ''workqueue''"
| "work_tag Work2 = ''workqueue2''"








section \<open>Resources\<close>

datatype workqueue_res = Wq_irq_line | Wq | Work_mem work_item

fun workqueue_calls :: "wstmt \<Rightarrow> workqueue_res kevent list" where
  "workqueue_calls W_request_irq = [Acquire Wq_irq_line]"
| "workqueue_calls Create_workqueue = [Acquire Wq]"
| "workqueue_calls Kmalloc_work1 = [Acquire (Work_mem Work1)]"
| "workqueue_calls Kmalloc_work2 = [Acquire (Work_mem Work2)]"
| "workqueue_calls Init_work1 = [Setup (Work_mem Work1)]"
| "workqueue_calls Init_work2 = [Setup (Work_mem Work2)]"
| "workqueue_calls Destroy_workqueue = [Release Wq]"
| "workqueue_calls Kfree_work1 = [Release (Work_mem Work1)]"
| "workqueue_calls Kfree_work2 = [Release (Work_mem Work2)]"
| "workqueue_calls W_free_irq = [Release Wq_irq_line]"
| "workqueue_calls _ = []"

definition workqueue_insmod :: "workqueue_env \<Rightarrow> workqueue_res kevent list \<times> errno option" where
  "workqueue_insmod env =
     (case my_workqueue_init env of (ss, e) \<Rightarrow> (concat (map workqueue_calls ss), e))"

definition workqueue_rmmod :: "workqueue_res kevent list" where
  "workqueue_rmmod = concat (map workqueue_calls my_workqueue_exit)"

lemma held_workqueue_empty:
  "held m = {} \<longleftrightarrow> \<not> is_held (m Wq_irq_line) \<and> \<not> is_held (m Wq) \<and>
     \<not> is_held (m (Work_mem Work1)) \<and> \<not> is_held (m (Work_mem Work2))"
  unfolding held_empty_iff by (metis workqueue_res.exhaust work_item.exhaust)

interpretation workqueue_module: kernel_module workqueue_insmod workqueue_rmmod
proof unfold_locales
  fix m :: "workqueue_res slots" and env e
  assume m: "held m = {}"
  note unf = workqueue_insmod_def workqueue_rmmod_def my_workqueue_init_def my_workqueue_exit_def
    m [unfolded held_workqueue_empty] held_workqueue_empty Let_def
  show "snd (workqueue_insmod env) = Some e \<Longrightarrow>
      \<exists>m'. replay (fst (workqueue_insmod env)) m = Some m' \<and> held m' = {}"
    by (auto simp: unf simp del: held_upd split: if_splits option.splits)
  show "snd (workqueue_insmod env) = None \<Longrightarrow>
      \<exists>m'. replay (fst (workqueue_insmod env) @ workqueue_rmmod) m = Some m' \<and> held m' = {}"
    by (auto simp: unf simp del: held_upd split: if_splits option.splits)
qed

section \<open>Against the tasklet module\<close>




definition from_work :: "work_item \<Rightarrow> char list list \<Rightarrow> char list list" where
  "from_work w log = filter (\<lambda>line. takeWhile (\<lambda>c. c \<noteq> CHR '':'') line = work_tag w) log"

lemma from_work_simps [simp]:
  "from_work w [] = []"
  "from_work w (xs @ ys) = from_work w xs @ from_work w ys"
  by (simp_all add: from_work_def)





section \<open>Properties\<close>





text \<open>
  The same windows in the work-queue module. With the handler registered first and
  unregistered last, a keyboard interrupt faults in the first five gaps of the load (NULL while
  an item or the queue is missing, uninitialised memory until both items are set up) and, during
  the unload, from the moment the queue is destroyed until the line is released.
\<close>

lemma workqueue_irq_window:
  assumes "snd (my_workqueue_init env) = None" and "k \<le> 12"
  shows "workqueue_event (Irq 1 byte)
       (workqueue_after (take k (fst (my_workqueue_init env) @ my_workqueue_exit))) =
     (let s = workqueue_after (take k (fst (my_workqueue_init env) @ my_workqueue_exit)) in
      if k = 0 \<or> k = 12 then Inr s
      else if k \<le> 3 then Inl Null_Deref
      else if k \<le> 5 then Inl Uninitialised
      else if k \<le> 8 then Inr (s\<lparr>work1 := KLive (ucast byte), work2 := KLive (ucast byte)\<rparr>)
      else Inl Use_After_Free)"
proof -
  have "fst (my_workqueue_init env) =
      [W_request_irq, Create_workqueue, Kmalloc_work1, Kmalloc_work2, Init_work1, Init_work2,
       W_layout_size]"
    using assms(1) by (auto simp: my_workqueue_init_def Let_def split: option.splits if_splits)
  moreover have "k \<in> {0, 1, 2, 3, 4, 5, 6, 7, 8, 9, 10, 11, 12}"
    using assms(2) by (simp, presburger)
  ultimately show ?thesis
    by (auto simp: my_workqueue_exit_def workqueue_after_def workqueue_boot_def
        irq_handler_workqueue_def IRQ_NO_def Let_def)
qed

text \<open>
  The keyboard modules do not leak. Loading and unloading either module, any number of times and
  with any of its allocations failing, releases everything it acquired exactly once.
\<close>

lemma keyboard_modules_clean:
  "(\<exists>m. replay (sessions workqueue_insmod workqueue_rmmod wenvs) no_slots = Some m \<and> held m = {}) \<and>
   (\<exists>m. replay (sessions tasklet_insmod tasklet_rmmod tenvs) no_slots = Some m \<and> held m = {})"
  using workqueue_module.sessions_clean [of no_slots wenvs] tasklet_module.sessions_clean [of no_slots tenvs]
  by simp

end
