(* ===== verification/Semaphores.thy ===== *)
theory Semaphores
  imports Prelude
begin

text \<open>
  System V semaphore sets as the two letter servers use them. An array of operations is applied
  to the set as a whole or not at all; \<open>sem_apply\<close> returns \<open>None\<close> when the caller has to wait.
  The values stay far below the kernel's limit of 32767 (4096 is the largest), so that limit is
  not modelled.
\<close>

record sembuf =
  sem_num :: nat
  sem_op :: int

type_synonym semset = "nat list"

definition sem_one :: "sembuf \<Rightarrow> semset \<Rightarrow> semset option" where
  "sem_one b v =
     (let new = int (v ! sem_num b) + sem_op b in
      if new < 0 then None else Some (v[sem_num b := nat new]))"

fun sem_apply :: "sembuf list \<Rightarrow> semset \<Rightarrow> semset option" where
  "sem_apply [] v = Some v"
| "sem_apply (b # bs) v = (case sem_one b v of None \<Rightarrow> None | Some v' \<Rightarrow> sem_apply bs v')"

text \<open>
  \<open>semtimedop\<close> with the short timeout of the server: \<open>EAGAIN\<close> when the operations cannot be applied before
  the time is over; \<open>trouble\<close> is a failure for another reason (a signal, a removed set).
\<close>

definition semtimedop :: "sembuf list \<Rightarrow> errno option \<Rightarrow> semset \<Rightarrow> errno + semset" where
  "semtimedop ops trouble v =
     (case trouble of
        Some e \<Rightarrow> Inl e
      | None \<Rightarrow> (case sem_apply ops v of None \<Rightarrow> Inl EAGAIN | Some v' \<Rightarrow> Inr v'))"

text \<open>Taking and giving one unit of a semaphore.\<close>

abbreviation sem_down :: "nat \<Rightarrow> sembuf" where
  "sem_down n \<equiv> \<lparr>sem_num = n, sem_op = - 1\<rparr>"

abbreviation sem_up :: "nat \<Rightarrow> sembuf" where
  "sem_up n \<equiv> \<lparr>sem_num = n, sem_op = 1\<rparr>"

lemma sem_down_one [simp]:
  "sem_one (sem_down n) v = (if v ! n = 0 then None else Some (v[n := v ! n - 1]))"
  by (auto simp: sem_one_def Let_def nat_diff_distrib')

lemma sem_up_one [simp]: "sem_one (sem_up n) v = Some (v[n := Suc (v ! n)])"
  by (simp add: sem_one_def Let_def nat_add_distrib)

lemma sem_apply_length: "sem_apply bs v = Some v' \<Longrightarrow> length v' = length v"
  by (induction bs arbitrary: v) (auto simp: sem_one_def Let_def split: option.splits if_splits)

end
