(* ===== verification/Letter_Queue.thy ===== *)
theory Letter_Queue
  imports Prelude
begin

text \<open>
  The contract of the two letter servers: producers put the letters \<open>a\<close>, \<open>b\<close>, \<open>c\<close> and so on,
  starting over after \<open>z\<close>, into a bounded queue and consumers take them out in that order. The
  locale states what a server's put and get must do to the stored letters; its lemma is
  that every sequence of requests is then answered as the two counters of \<open>queue_spec\<close> say.
\<close>

definition letter :: "nat \<Rightarrow> char" where
  "letter n = char_of (97 + n mod 26)"

definition letters :: "nat \<Rightarrow> nat \<Rightarrow> char list" where
  "letters i j = map letter [i..<j]"

lemma letter_mod: "letter (n mod 26) = letter n"
  by (simp add: letter_def)

lemma letter_cong: "n mod 26 = m mod 26 \<Longrightarrow> letter n = letter m"
  by (simp add: letter_def)

lemma letters_snoc: "i \<le> j \<Longrightarrow> letters i j @ [letter j] = letters i (Suc j)"
  by (simp add: letters_def)

lemma letters_Cons: "i < j \<Longrightarrow> letters i j = letter i # letters (Suc i) j"
  by (simp add: letters_def upt_conv_Cons)

lemma letters_length [simp]: "length (letters i j) = j - i"
  by (simp add: letters_def)

lemma letters_empty [simp]: "letters i i = []"
  by (simp add: letters_def)

lemma letter_not_nul: "letter n \<noteq> nul"
proof
  assume "letter n = nul"
  then have "of_char (letter n) = (0::nat)" by simp
  moreover have "n mod 26 < 26" by simp
  ultimately show False
    unfolding letter_def by (simp only: of_char_of take_bit_eq_mod) simp
qed

section \<open>Requests and replies\<close>

datatype request = Put | Get

datatype reply = Accepted | Refused | Letter char

fun queue_spec :: "nat \<Rightarrow> request list \<Rightarrow> nat \<Rightarrow> nat \<Rightarrow> reply list" where
  \<comment> \<open>\<open>made\<close> letters were put so far and \<open>taken\<close> of them were got\<close>
  "queue_spec cap [] made taken = []"
| "queue_spec cap (Put # rs) made taken =
     (if made - taken < cap then Accepted # queue_spec cap rs (Suc made) taken
      else Refused # queue_spec cap rs made taken)"
| "queue_spec cap (Get # rs) made taken =
     (if taken < made then Letter (letter taken) # queue_spec cap rs made (Suc taken)
      else Refused # queue_spec cap rs made taken)"

definition got :: "reply list \<Rightarrow> char list" where
  "got rs = concat (map (\<lambda>r. case r of Letter c \<Rightarrow> [c] | _ \<Rightarrow> []) rs)"

definition accepted :: "reply list \<Rightarrow> nat" where
  "accepted rs = length (filter (\<lambda>r. r = Accepted) rs)"

lemma got_simps [simp]:
  "got [] = []" "got (Letter c # rs) = c # got rs" "got (Accepted # rs) = got rs"
  "got (Refused # rs) = got rs"
  by (simp_all add: got_def)

lemma accepted_simps [simp]:
  "accepted [] = 0" "accepted (Letter c # rs) = accepted rs"
  "accepted (Accepted # rs) = Suc (accepted rs)" "accepted (Refused # rs) = accepted rs"
  by (simp_all add: accepted_def)

text \<open>What the counters imply: letters in order, never more than were put, never more than fit.\<close>

lemma queue_spec_order:
  "taken \<le> made \<Longrightarrow>
     got (queue_spec cap rs made taken) =
       letters taken (taken + length (got (queue_spec cap rs made taken)))"
proof (induction cap rs made taken rule: queue_spec.induct)
  case (3 cap rs made taken)
  then show ?case by (auto simp: letters_Cons)
qed auto

lemma queue_spec_bounds:
  "taken \<le> made \<Longrightarrow> made - taken \<le> cap \<Longrightarrow>
     (let r = queue_spec cap rs made taken in
      taken + length (got r) \<le> made + accepted r \<and>
      made + accepted r \<le> taken + length (got r) + cap)"
proof (induction cap rs made taken rule: queue_spec.induct)
  case (2 cap rs made taken)
  then show ?case by (fastforce simp: Let_def)
next
  case (3 cap rs made taken)
  then show ?case by (fastforce simp: Let_def)
qed (simp add: Let_def)

lemma queue_spec_length [simp]: "length (queue_spec cap rs made taken) = length rs"
  by (induction cap rs made taken rule: queue_spec.induct) auto

lemma queue_spec_take: "take n (queue_spec cap rs made taken) = queue_spec cap (take n rs) made taken"
proof (induction cap rs made taken arbitrary: n rule: queue_spec.induct)
  case (2 cap rs made taken)
  then show ?case by (cases n) auto
next
  case (3 cap rs made taken)
  then show ?case by (cases n) auto
qed simp

section \<open>The contract\<close>

locale letter_queue =
  fixes put :: "'s \<Rightarrow> 's option"
    and get :: "'s \<Rightarrow> (char \<times> 's) option"
    and inv :: "'s \<Rightarrow> bool"
    and stored :: "'s \<Rightarrow> char list"
    and fresh :: "'s \<Rightarrow> nat"
    and cap :: nat
  assumes put_room: "inv s \<Longrightarrow> length (stored s) < cap \<Longrightarrow>
      \<exists>s'. put s = Some s' \<and> inv s' \<and> stored s' = stored s @ [letter (fresh s)] \<and>
        fresh s' = Suc (fresh s) mod 26"
    and put_full: "inv s \<Longrightarrow> \<not> length (stored s) < cap \<Longrightarrow> put s = None"
    and get_some: "inv s \<Longrightarrow> stored s = c # cs \<Longrightarrow>
      \<exists>s'. get s = Some (c, s') \<and> inv s' \<and> stored s' = cs \<and> fresh s' = fresh s"
    and get_none: "inv s \<Longrightarrow> stored s = [] \<Longrightarrow> get s = None"

fun serve ::
  "('s \<Rightarrow> 's option) \<Rightarrow> ('s \<Rightarrow> (char \<times> 's) option) \<Rightarrow> request list \<Rightarrow> 's \<Rightarrow> reply list \<times> 's" where
  "serve put get [] s = ([], s)"
| "serve put get (Put # rs) s =
     (case put s of
        None \<Rightarrow> (case serve put get rs s of (out, t) \<Rightarrow> (Refused # out, t))
      | Some s' \<Rightarrow> (case serve put get rs s' of (out, t) \<Rightarrow> (Accepted # out, t)))"
| "serve put get (Get # rs) s =
     (case get s of
        None \<Rightarrow> (case serve put get rs s of (out, t) \<Rightarrow> (Refused # out, t))
      | Some (c, s') \<Rightarrow> (case serve put get rs s' of (out, t) \<Rightarrow> (Letter c # out, t)))"

context letter_queue begin

definition at_counts :: "nat \<Rightarrow> nat \<Rightarrow> 's \<Rightarrow> bool" where
  "at_counts made taken s \<longleftrightarrow>
     inv s \<and> taken \<le> made \<and> stored s = letters taken made \<and> fresh s mod 26 = made mod 26"

lemma put_counts:
  assumes "at_counts made taken s" "made - taken < cap"
  shows "\<exists>s'. put s = Some s' \<and> at_counts (Suc made) taken s'"
proof -
  obtain s' where "put s = Some s'" "inv s'" "stored s' = stored s @ [letter (fresh s)]"
    "fresh s' = Suc (fresh s) mod 26"
    using put_room [of s] assms by (auto simp: at_counts_def)
  moreover have "letter (fresh s) = letter made"
    using assms(1) by (intro letter_cong) (simp add: at_counts_def)
  moreover have "Suc (fresh s) mod 26 = Suc made mod 26"
    using assms(1) by (metis at_counts_def mod_Suc_eq)
  ultimately show ?thesis
    using assms(1) by (auto simp: at_counts_def letters_snoc)
qed

lemma get_counts:
  assumes "at_counts made taken s" "taken < made"
  shows "\<exists>s'. get s = Some (letter taken, s') \<and> at_counts made (Suc taken) s'"
  using get_some [of s "letter taken" "letters (Suc taken) made"] assms
  by (auto simp: at_counts_def letters_Cons)

theorem serve_spec:
  "at_counts made taken s \<Longrightarrow> fst (serve put get rs s) = queue_spec cap rs made taken"
proof (induction rs arbitrary: made taken s)
  case Nil
  then show ?case by simp
next
  case (Cons r rs)
  note at = Cons.prems
  show ?case
  proof (cases r)
    case Put
    show ?thesis
    proof (cases "made - taken < cap")
      case True
      from put_counts [OF at True] show ?thesis
        using True Cons.IH by (auto simp: Put split: prod.split dest!: Cons.IH)
    next
      case False
      have "put s = None"
        using put_full [of s] at False by (simp add: at_counts_def)
      then show ?thesis
        using False Cons.IH [OF at] by (auto simp: Put split: prod.split)
    qed
  next
    case Get
    show ?thesis
    proof (cases "taken < made")
      case True
      from get_counts [OF at True] show ?thesis
        using True Cons.IH by (auto simp: Get split: prod.split dest!: Cons.IH)
    next
      case False
      have "get s = None"
        using get_none [of s] at False by (simp add: at_counts_def letters_def)
      then show ?thesis
        using False Cons.IH [OF at] by (auto simp: Get split: prod.split)
    qed
  qed
qed

end

end
