(* ===== verification/Mplex_Server.thy ===== *)
theory Mplex_Server
  imports Semaphores Letter_Queue Kmodule
begin

text \<open>
  The single-threaded letter server of \<open>client-server-af-inet/multiplex/server.c\<close>: set-up, the
  \<open>epoll\<close> loop, \<open>worker\<close>, \<open>producer\<close> and \<open>consumer\<close>. What the kernel calls of one round return is
  in the records \<open>conn_env\<close> and \<open>round\<close>; every failing call ends in the exit of the source.
  \<open>sent\<close> is the list of replies written, with the descriptor each went to.
\<close>

section \<open>State\<close>

definition SEM_EMPTY :: nat where "SEM_EMPTY = 0"
definition SEM_FULL :: nat where "SEM_FULL = 1"
definition N_SLOTS :: nat where "N_SLOTS = 26"

type_synonym timespec = "int \<times> int"

record mp_state =
  buf :: "char list"
  cur_letter :: char
  producer_index :: nat
  consumer_index :: nat
  sems :: semset
  sent :: "(nat \<times> char list) list"
  conns :: "nat list" \<comment> \<open>accepted and not yet closed\<close>
  fptr_log :: "int list" \<comment> \<open>the service times written to the log file, in nanoseconds\<close>

datatype read_result = Rd_byte char | Rd_eof | Rd_error | Rd_never

record conn_env =
  got_byte :: read_result
  trouble1 :: "errno option"
  trouble2 :: "errno option"
  write_ok :: bool
  endtime :: timespec

text \<open>A computation that may end the process keeps the state it ended in.\<close>

type_synonym 'a mp_comp = "(halt \<times> mp_state) + 'a"

definition in_buf :: "mp_state \<Rightarrow> nat \<Rightarrow> 'a \<Rightarrow> 'a mp_comp" where
  "in_buf s i r = (if i < length (buf s) then Inr r else Inl (Faulted Out_Of_Bounds, s))"

section \<open>Producer and consumer\<close>

definition next_letter :: "char \<Rightarrow> char" where
  "next_letter c =
     (if (of_char c :: nat) \<ge> of_char (CHR ''z'') then CHR ''a'' else char_of (of_char c + 1 :: nat))"

definition next_index :: "nat \<Rightarrow> nat" where
  "next_index i = (if i + 1 \<ge> N_SLOTS then 0 else i + 1)"

definition ER :: "char list" where "ER = ''ER'' @ [nul]"
definition OK :: "char list" where "OK = ''OK'' @ [nul]"

definition produce_part ::
  "errno option \<Rightarrow> errno option \<Rightarrow> mp_state \<Rightarrow> (mp_state \<times> char list) mp_comp" where
  "produce_part t1 t2 s =
     (case semtimedop [sem_down SEM_EMPTY] t1 (sems s) of
        Inl e \<Rightarrow> if e \<noteq> EAGAIN then Inl (Exited 1, s) else Inr (s, ER)
      | Inr v \<Rightarrow>
          let s1 = s\<lparr>sems := v\<rparr> in
          rbind (in_buf s1 (producer_index s1) (s1\<lparr>buf := (buf s1)[producer_index s1 := cur_letter s1]\<rparr>)) (\<lambda>s2.
            let s3 = s2\<lparr>cur_letter := next_letter (cur_letter s2),
                         producer_index := next_index (producer_index s2)\<rparr> in
            (case semtimedop [sem_up SEM_FULL] t2 (sems s3) of
               Inl e \<Rightarrow> if e \<noteq> EAGAIN then Inl (Exited 1, s3) else Inr (s3, ER)
             | Inr v \<Rightarrow> Inr (s3\<lparr>sems := v\<rparr>, OK))))"

definition consume_part ::
  "errno option \<Rightarrow> errno option \<Rightarrow> mp_state \<Rightarrow> (mp_state \<times> char list) mp_comp" where
  "consume_part t1 t2 s =
     (case semtimedop [sem_down SEM_FULL] t1 (sems s) of
        Inl e \<Rightarrow> if e = EAGAIN then Inr (s, ER) else Inl (Exited 1, s)
      | Inr v \<Rightarrow>
          let s1 = s\<lparr>sems := v\<rparr> in
          rbind (in_buf s1 (consumer_index s1) (buf s1 ! consumer_index s1)) (\<lambda>c.
            let s2 = s1\<lparr>consumer_index := next_index (consumer_index s1)\<rparr>; msg = [c, nul, nul] in
            (case semtimedop [sem_up SEM_EMPTY] t2 (sems s2) of
               Inl e \<Rightarrow> if e = EAGAIN then Inr (s2, ER) else Inl (Exited 1, s2)
             | Inr v \<Rightarrow> Inr (s2\<lparr>sems := v\<rparr>, msg))))"

definition write_reply :: "bool \<Rightarrow> nat \<Rightarrow> mp_state \<times> char list \<Rightarrow> mp_state mp_comp" where
  "write_reply ok fd = (\<lambda>(s, msg). if ok then Inr (s\<lparr>sent := sent s @ [(fd, msg)]\<rparr>) else Inl (Exited 1, s))"

definition producer :: "conn_env \<Rightarrow> nat \<Rightarrow> mp_state \<Rightarrow> mp_state mp_comp" where
  "producer env fd s = rbind (produce_part (trouble1 env) (trouble2 env) s) (write_reply (write_ok env) fd)"

definition consumer :: "conn_env \<Rightarrow> nat \<Rightarrow> mp_state \<Rightarrow> mp_state mp_comp" where
  "consumer env fd s = rbind (consume_part (trouble1 env) (trouble2 env) s) (write_reply (write_ok env) fd)"

definition worker :: "timespec \<Rightarrow> conn_env \<Rightarrow> nat \<Rightarrow> mp_state \<Rightarrow> mp_state mp_comp" where
  "worker starttime env fd s =
     rbind
       (case got_byte env of
          Rd_never \<Rightarrow> Inl (Blocked, s)
        | Rd_byte type \<Rightarrow>
            if type = CHR ''p'' then producer env fd s
            else if type = CHR ''c'' then consumer env fd s
            else Inr s
        | _ \<Rightarrow> Inr s) (\<lambda>s0.
       let s = s0\<lparr>conns := removeAll fd (conns s0)\<rparr> in
       if got_byte env = Rd_error then Inl (Exited 1, s)
       else
         Inr (s\<lparr>fptr_log := fptr_log s @
           [(fst (endtime env) - fst starttime) * 1000000000 + (snd (endtime env) - snd starttime)]\<rparr>))"

section \<open>The main loop\<close>

datatype mp_event = On_listen "(nat \<times> bool) option" | On_conn nat conn_env
  \<comment> \<open>the listening socket, with what \<open>accept\<close> and \<open>epoll_ctl\<close> return, or a connection\<close>

datatype wait_result = Wait_failed | Events "mp_event list"

record round =
  sigint_seen :: bool \<comment> \<open>\<open>sig_handler\<close> has cleared \<open>fl\<close> before this round's test\<close>
  waited :: wait_result
  starttime :: timespec

fun mp_events :: "timespec \<Rightarrow> mp_event list \<Rightarrow> mp_state \<Rightarrow> mp_state mp_comp" where
  "mp_events t [] s = Inr s"
| "mp_events t (On_listen None # evs) s = Inl (Exited 1, s)"
| "mp_events t (On_listen (Some (fd, ctl_ok)) # evs) s =
     (let s' = s\<lparr>conns := conns s @ [fd]\<rparr> in
      if ctl_ok then mp_events t evs s' else Inl (Exited 1, s'))"
| "mp_events t (On_conn fd env # evs) s = rbind (worker t env fd s) (mp_events t evs)"

datatype mp_result =
  Running mp_state
| Stopped halt mp_state bool \<comment> \<open>the flag says that the semaphore set was removed\<close>

fun mp_loop :: "bool \<Rightarrow> round list \<Rightarrow> mp_state \<Rightarrow> mp_result" where
  "mp_loop rmid_ok [] s = Running s"
| "mp_loop rmid_ok (r # rs) s =
     (if sigint_seen r then (if rmid_ok then Stopped (Exited 0) s True else Stopped (Exited 1) s False)
      else
        (case waited r of
           Wait_failed \<Rightarrow> Stopped (Exited 1) s False
         | Events evs \<Rightarrow>
             (case mp_events (starttime r) evs s of
                Inl (h, s') \<Rightarrow> Stopped h s' False
              | Inr s' \<Rightarrow> mp_loop rmid_ok rs s')))"

section \<open>Set-up\<close>

datatype mp_res = Sem_set | Log_file | Listen_sock | Epoll_fd

record mp_boot_env =
  signal_ok :: bool
  ftok_ok :: bool
  semget_ok :: bool
  setval_full_ok :: bool
  setval_empty_ok :: bool
  fopen_ok :: bool
  socket_ok :: bool
  bind_ok :: bool
  listen_ok :: bool
  epoll_create_ok :: bool
  epoll_ctl_ok :: bool

definition mp_setup :: "mp_boot_env \<Rightarrow> mp_res kevent list \<times> bool" where
  \<comment> \<open>the resources taken and given back, and whether the loop is reached\<close>
  "mp_setup env =
     (if \<not> signal_ok env then ([], False)
      else if \<not> ftok_ok env then ([], False)
      else if \<not> semget_ok env then ([], False)
      else
        let t = [Acquire Sem_set] in
        if \<not> setval_full_ok env then (t, False)
        else if \<not> setval_empty_ok env then (t, False)
        else
          let t = t @ [Setup Sem_set] in
          if \<not> fopen_ok env then (t, False)
          else
            let t = t @ [Acquire Log_file] in
            if \<not> socket_ok env then (t @ [Release Log_file], False)
            else
              let t = t @ [Acquire Listen_sock]; undo = [Release Log_file, Release Listen_sock] in
              if \<not> bind_ok env then (t @ undo, False)
              else if \<not> listen_ok env then (t @ undo, False)
              else if \<not> epoll_create_ok env then (t @ undo, False)
              else
                let t = t @ [Acquire Epoll_fd] in
                if \<not> epoll_ctl_ok env then (t @ undo, False)
                else (t, True))"

definition mp_start :: "char list \<Rightarrow> mp_state" where
  \<comment> \<open>the state at the first test of \<open>fl\<close>; the array holds what was on the stack\<close>
  "mp_start junk =
     \<lparr>buf = junk, cur_letter = CHR ''a'', producer_index = 0, consumer_index = 0,
      sems = [N_SLOTS, 0], sent = [], conns = [], fptr_log = []\<rparr>"


section \<open>The ring buffer is a queue\<close>

definition mp_put :: "mp_state \<Rightarrow> mp_state option" where
  \<comment> \<open>an undisturbed producer that answers OK\<close>
  "mp_put s =
     (case produce_part None None s of Inr (s', m) \<Rightarrow> if m = OK then Some s' else None | Inl _ \<Rightarrow> None)"

definition mp_get :: "mp_state \<Rightarrow> (char \<times> mp_state) option" where
  "mp_get s =
     (case consume_part None None s of
        Inr (s', m) \<Rightarrow> if m = ER then None else Some (m ! 0, s')
      | Inl _ \<Rightarrow> None)"

definition mp_stored :: "mp_state \<Rightarrow> char list" where
  "mp_stored s = map (\<lambda>j. buf s ! ((consumer_index s + j) mod 26)) [0..<sems s ! SEM_FULL]"

definition mp_inv :: "mp_state \<Rightarrow> bool" where
  "mp_inv s \<longleftrightarrow>
     length (buf s) = 26 \<and> consumer_index s < 26 \<and>
     (\<exists>k \<le> 26. sems s = [26 - k, k] \<and> producer_index s = (consumer_index s + k) mod 26) \<and>
     cur_letter s = letter (producer_index s)"

lemmas mp_consts = SEM_EMPTY_def SEM_FULL_def N_SLOTS_def

lemma next_letter_letter: "next_letter (letter n) = letter (Suc n)"
proof -
  have "\<forall>k \<in> set [0..<26]. next_letter (char_of (97 + k :: nat)) = char_of (97 + Suc k mod 26 :: nat)"
    by code_simp
  moreover have "n mod 26 < 26" by simp
  ultimately have "next_letter (char_of (97 + n mod 26)) = char_of (97 + Suc (n mod 26) mod 26)"
    by simp
  then show ?thesis
    by (simp add: letter_def mod_Suc_eq)
qed

lemma next_index_mod: "i < 26 \<Longrightarrow> next_index i = Suc i mod 26"
  by (cases "i = 25") (simp_all add: next_index_def N_SLOTS_def)

lemma ring_slots_differ: "j < k \<Longrightarrow> k < 26 \<Longrightarrow> (i + j) mod 26 \<noteq> (i + k) mod (26::nat)"
proof
  assume jk: "j < k" "k < 26" and eq: "(i + j) mod 26 = (i + k) mod 26"
  then have "26 dvd (i + k) - (i + j)"
    by (intro mod_eq_dvd_iff_nat [THEN iffD1]) auto
  then have "26 dvd k - j" by simp
  with jk show False by (auto dest: dvd_imp_le)
qed

lemma mp_invE:
  assumes "mp_inv s"
  obtains k where "k \<le> 26" "sems s = [26 - k, k]" "producer_index s = (consumer_index s + k) mod 26"
    "length (buf s) = 26" "consumer_index s < 26" "cur_letter s = letter (producer_index s)"
    "length (mp_stored s) = k"
  using assms by (auto simp: mp_inv_def mp_stored_def mp_consts)

lemma mp_put_room:
  assumes "mp_inv s" "length (mp_stored s) < 26"
  shows "\<exists>s'. mp_put s = Some s' \<and> mp_inv s' \<and>
    mp_stored s' = mp_stored s @ [letter (producer_index s)] \<and>
    producer_index s' = Suc (producer_index s) mod 26"
proof -
  obtain k where k: "k \<le> 26" "sems s = [26 - k, k]" and
    p: "producer_index s = (consumer_index s + k) mod 26" and
    rest: "length (buf s) = 26" "consumer_index s < 26" "cur_letter s = letter (producer_index s)"
    and len: "length (mp_stored s) = k"
    using assms(1) by (rule mp_invE)
  have less: "k < 26" using assms(2) len by simp
  have p26: "producer_index s < 26" using p by simp
  let ?s = "s\<lparr>sems := [25 - k, Suc k], buf := (buf s)[producer_index s := letter (producer_index s)],
      cur_letter := letter (Suc (producer_index s)), producer_index := Suc (producer_index s) mod 26\<rparr>"
  have run: "produce_part None None s = Inr (?s, OK)"
    using k less rest p26
    by (simp add: produce_part_def semtimedop_def mp_consts in_buf_def Let_def next_letter_letter
        next_index_mod numeral_2_eq_2)
  have "letter (Suc (producer_index s)) = letter (Suc (producer_index s) mod 26)"
    by (simp only: letter_mod)
  then have "mp_inv ?s"
    using less rest p by (simp add: mp_inv_def) (auto simp: mod_Suc_eq intro!: exI [of _ "Suc k"])
  moreover have "mp_stored ?s = mp_stored s @ [letter (producer_index s)]"
    using less rest p k
    by (auto simp: mp_stored_def mp_consts nth_list_update ring_slots_differ [THEN not_sym])
  ultimately show ?thesis
    using run by (auto simp: mp_put_def)
qed

lemma mp_put_full:
  assumes "mp_inv s" "\<not> length (mp_stored s) < 26"
  shows "produce_part None None s = Inr (s, ER)"
  using assms(1)
proof (rule mp_invE)
  fix k assume "k \<le> 26" "sems s = [26 - k, k]" "length (mp_stored s) = k"
  with assms(2) show ?thesis
    by (simp add: produce_part_def semtimedop_def mp_consts)
qed

lemma mp_get_some:
  assumes "mp_inv s" "mp_stored s = c # cs"
  shows "\<exists>s'. consume_part None None s = Inr (s', [c, nul, nul]) \<and> mp_inv s' \<and> mp_stored s' = cs \<and>
    producer_index s' = producer_index s"
proof -
  obtain k where k: "k \<le> 26" "sems s = [26 - k, k]" and
    p: "producer_index s = (consumer_index s + k) mod 26" and
    rest: "length (buf s) = 26" "consumer_index s < 26" "cur_letter s = letter (producer_index s)"
    and len: "length (mp_stored s) = k"
    using assms(1) by (rule mp_invE)
  obtain k' where k': "k = Suc k'" using len assms(2) by (cases k) auto
  let ?s = "s\<lparr>sems := [Suc (26 - k), k'], consumer_index := Suc (consumer_index s) mod 26\<rparr>"
  have "mp_stored s = map (\<lambda>j. buf s ! ((consumer_index s + j) mod 26)) (0 # map Suc [0..<k'])"
    unfolding mp_stored_def using k k' by (simp add: mp_consts upt_conv_Cons map_Suc_upt del: upt_Suc)
  then have c: "c = buf s ! consumer_index s"
    and cs: "cs = map (\<lambda>j. buf s ! ((consumer_index s + Suc j) mod 26)) [0..<k']"
    using assms(2) rest by simp_all
  have run: "consume_part None None s = Inr (?s, [c, nul, nul])"
    using k k' rest c
    by (simp add: consume_part_def semtimedop_def mp_consts in_buf_def Let_def next_index_mod)
  have "mp_inv ?s"
    using rest p k k'
    by (auto simp: mp_inv_def mod_simps intro!: exI [of _ k'])
  moreover have "mp_stored ?s = cs"
    by (simp add: mp_stored_def mp_consts cs mod_simps)
  ultimately show ?thesis using run by auto
qed

lemma mp_get_none:
  assumes "mp_inv s" "mp_stored s = []"
  shows "consume_part None None s = Inr (s, ER)"
  using assms(1)
proof (rule mp_invE)
  fix k assume "sems s = [26 - k, k]" "length (mp_stored s) = k"
  with assms(2) show ?thesis
    by (simp add: consume_part_def semtimedop_def mp_consts)
qed

lemma OK_ne_ER [simp]: "OK \<noteq> ER" "ER \<noteq> OK" "[c, nul, nul] \<noteq> ER"
  by (simp_all add: OK_def ER_def)

interpretation mp: letter_queue mp_put mp_get mp_inv mp_stored producer_index 26
proof unfold_locales
  fix s c cs
  assume inv: "mp_inv s"
  show "length (mp_stored s) < 26 \<Longrightarrow> \<exists>s'. mp_put s = Some s' \<and> mp_inv s' \<and>
      mp_stored s' = mp_stored s @ [letter (producer_index s)] \<and>
      producer_index s' = Suc (producer_index s) mod 26"
    by (rule mp_put_room [OF inv])
  show "\<not> length (mp_stored s) < 26 \<Longrightarrow> mp_put s = None"
    by (simp add: mp_put_def mp_put_full [OF inv])
  show "mp_stored s = c # cs \<Longrightarrow> \<exists>s'. mp_get s = Some (c, s') \<and> mp_inv s' \<and> mp_stored s' = cs \<and>
      producer_index s' = producer_index s"
    using mp_get_some [OF inv] by (fastforce simp: mp_get_def)
  show "mp_stored s = [] \<Longrightarrow> mp_get s = None"
    by (simp add: mp_get_def mp_get_none [OF inv])
qed

end
