(* ===== verification/Mplex_Serving.thy ===== *)
theory Mplex_Serving
  imports Mplex_Server
begin

text \<open>
  The \<open>epoll\<close> loop of the multiplexing server as a refinement of the letter queue: whatever the
  order of events, the replies written are those of \<open>queue_spec\<close> with capacity 26 for the
  requests read, and a failure only cuts the sequence short.
\<close>

section \<open>What the events ask for and should get\<close>

fun requests :: "mp_event list \<Rightarrow> (nat \<times> request) list" where
  "requests [] = []"
| "requests (On_listen _ # evs) = requests evs"
| "requests (On_conn fd env # evs) =
     (case got_byte env of
        Rd_byte c \<Rightarrow>
          if c = CHR ''p'' then (fd, Put) # requests evs
          else if c = CHR ''c'' then (fd, Get) # requests evs
          else requests evs
      | _ \<Rightarrow> requests evs)"

fun round_events :: "round list \<Rightarrow> mp_event list" where
  "round_events [] = []"
| "round_events (r # rs) = (case waited r of Events evs \<Rightarrow> evs @ round_events rs | Wait_failed \<Rightarrow> round_events rs)"

fun reply_bytes :: "reply \<Rightarrow> char list" where
  "reply_bytes Accepted = OK"
| "reply_bytes Refused = ER"
| "reply_bytes (Letter c) = [c, nul, nul]"

definition expected :: "(nat \<times> request) list \<Rightarrow> nat \<Rightarrow> nat \<Rightarrow> (nat \<times> char list) list" where
  "expected rs made taken = zip (map fst rs) (map reply_bytes (queue_spec 26 (map snd rs) made taken))"

text \<open>
  POSIX gives \<open>EAGAIN\<close> only for operations that could not be done in time, so the injected
  failures are other ones.
\<close>

definition sound_env :: "conn_env \<Rightarrow> bool" where
  "sound_env env \<longleftrightarrow> trouble1 env \<noteq> Some EAGAIN \<and> trouble2 env \<noteq> Some EAGAIN"

fun sound_event :: "mp_event \<Rightarrow> bool" where
  "sound_event (On_listen _) = True"
| "sound_event (On_conn fd env) = sound_env env"

lemma requests_append: "requests (xs @ ys) = requests xs @ requests ys"
  by (induction xs rule: requests.induct) (auto split: read_result.split)

lemma expected_simps:
  "expected [] made taken = []"
  "expected ((fd, Put) # rs) made taken =
     (if made - taken < 26 then (fd, OK) # expected rs (Suc made) taken
      else (fd, ER) # expected rs made taken)"
  "expected ((fd, Get) # rs) made taken =
     (if taken < made then (fd, [letter taken, nul, nul]) # expected rs made (Suc taken)
      else (fd, ER) # expected rs made taken)"
  by (simp_all add: expected_def)

section \<open>One request\<close>

text \<open>
  \<open>keeps_up rs s s'\<close>: from \<open>s\<close> to \<open>s'\<close> the requests \<open>rs\<close> were answered as expected, and what
  comes after is to be answered from the new counts.
\<close>

definition keeps_up :: "(nat \<times> request) list \<Rightarrow> nat \<Rightarrow> nat \<Rightarrow> mp_state \<Rightarrow> mp_state \<Rightarrow> bool" where
  "keeps_up rs made taken s s' \<longleftrightarrow>
     (\<exists>made' taken'. mp.at_counts made' taken' s' \<and>
        (\<forall>more. sent s @ expected (rs @ more) made taken = sent s' @ expected more made' taken'))"

definition cut_short :: "(nat \<times> request) list \<Rightarrow> nat \<Rightarrow> nat \<Rightarrow> mp_state \<Rightarrow> mp_state \<Rightarrow> bool" where
  "cut_short rs made taken s s' \<longleftrightarrow>
     (\<forall>more. \<exists>rest. sent s @ expected (rs @ more) made taken = sent s' @ rest)"

lemma at_counts_frame:
  "mp.at_counts made taken (s\<lparr>sent := x, conns := y, fptr_log := z\<rparr>) = mp.at_counts made taken s"
  "mp.at_counts made taken (s\<lparr>sent := x\<rparr>) = mp.at_counts made taken s"
  "mp.at_counts made taken (s\<lparr>conns := y\<rparr>) = mp.at_counts made taken s"
  "mp.at_counts made taken (s\<lparr>fptr_log := z\<rparr>) = mp.at_counts made taken s"
  by (simp_all add: mp.at_counts_def mp_inv_def mp_stored_def)

lemma keeps_upI:
  "mp.at_counts made' taken' s' \<Longrightarrow>
     (\<And>more. sent s @ expected (rs @ more) made taken = sent s' @ expected more made' taken') \<Longrightarrow>
     keeps_up rs made taken s s'"
  by (auto simp: keeps_up_def)

lemma cut_short_same: "sent s' = sent s \<Longrightarrow> cut_short rs made taken s s'"
  by (simp add: cut_short_def)

lemma keeps_up_nothing: "mp.at_counts made taken s' \<Longrightarrow> sent s' = sent s \<Longrightarrow> keeps_up [] made taken s s'"
  by (auto simp: keeps_up_def)

lemma keeps_up_frame:
  "keeps_up rs made taken s s' \<Longrightarrow> keeps_up rs made taken s (s'\<lparr>conns := y, fptr_log := z\<rparr>)"
  by (auto simp: keeps_up_def at_counts_frame)

lemma keeps_up_trans:
  "keeps_up rs made taken s t \<Longrightarrow> (\<And>m' t'. mp.at_counts m' t' t \<Longrightarrow> keeps_up rs' m' t' t u) \<Longrightarrow>
     keeps_up (rs @ rs') made taken s u"
  unfolding keeps_up_def by (metis append.assoc)

lemma keeps_up_cut:
  "keeps_up rs made taken s t \<Longrightarrow> (\<And>m' t'. mp.at_counts m' t' t \<Longrightarrow> cut_short rs' m' t' t u) \<Longrightarrow>
     cut_short (rs @ rs') made taken s u"
  unfolding keeps_up_def cut_short_def by (metis append.assoc)

lemma cut_more: "cut_short rs made taken s t \<Longrightarrow> cut_short (rs @ rs') made taken s t"
  unfolding cut_short_def by simp

lemma produce_no_eagain:
  assumes "t1 \<noteq> Some EAGAIN" "t2 \<noteq> Some EAGAIN"
  shows "produce_part t1 t2 s = Inr r \<Longrightarrow> produce_part None None s = Inr r"
    "produce_part t1 t2 s = Inl (h, s') \<Longrightarrow> sent s' = sent s"
  using assms
  by (auto simp: produce_part_def semtimedop_def in_buf_def Let_def rbind_Inr_iff rbind_Inl_iff
      split: option.splits sum.splits if_splits)

lemma consume_no_eagain:
  assumes "t1 \<noteq> Some EAGAIN" "t2 \<noteq> Some EAGAIN"
  shows "consume_part t1 t2 s = Inr r \<Longrightarrow> consume_part None None s = Inr r"
    "consume_part t1 t2 s = Inl (h, s') \<Longrightarrow> sent s' = sent s"
  using assms
  by (auto simp: consume_part_def semtimedop_def in_buf_def Let_def rbind_Inr_iff rbind_Inl_iff
      split: option.splits sum.splits if_splits)

text \<open>With the indices in range no step faults.\<close>

lemma part_no_fault:
  assumes "mp_inv s"
  shows "produce_part t1 t2 s = Inl (h, s') \<Longrightarrow> h = Exited 1"
    "consume_part t1 t2 s = Inl (h, s') \<Longrightarrow> h = Exited 1"
proof -
  have "producer_index s < length (buf s)" "consumer_index s < length (buf s)"
    using assms by (auto simp: mp_inv_def)
  then show "produce_part t1 t2 s = Inl (h, s') \<Longrightarrow> h = Exited 1"
    "consume_part t1 t2 s = Inl (h, s') \<Longrightarrow> h = Exited 1"
    by (auto simp: produce_part_def consume_part_def in_buf_def Let_def split: sum.splits if_splits)
qed

lemma part_keeps_sent:
  "produce_part t1 t2 s = Inr (s', m) \<Longrightarrow> sent s' = sent s"
  "consume_part t1 t2 s = Inr (s', m) \<Longrightarrow> sent s' = sent s"
  by (auto simp: produce_part_def consume_part_def semtimedop_def in_buf_def Let_def rbind_Inr_iff
      split: option.splits sum.splits if_splits)

lemma produce_counts:
  assumes "mp.at_counts made taken s"
  shows "if made - taken < 26
    then \<exists>s'. produce_part None None s = Inr (s', OK) \<and> mp.at_counts (Suc made) taken s'
    else produce_part None None s = Inr (s, ER)"
proof (cases "made - taken < 26")
  case True
  then show ?thesis
    using mp.put_counts [OF assms True] by (auto simp: mp_put_def split: sum.splits if_splits)
next
  case False
  then show ?thesis
    using mp_put_full [of s] assms by (simp add: mp.at_counts_def)
qed

lemma consume_counts:
  assumes "mp.at_counts made taken s"
  shows "if taken < made
    then \<exists>s'. consume_part None None s = Inr (s', [letter taken, nul, nul]) \<and> mp.at_counts made (Suc taken) s'
    else consume_part None None s = Inr (s, ER)"
proof (cases "taken < made")
  case True
  then have "mp_stored s = letter taken # letters (Suc taken) made" "mp_inv s"
    using assms by (simp_all add: mp.at_counts_def letters_Cons)
  from mp_get_some [OF this(2,1)] True show ?thesis
    using assms by (auto simp: mp.at_counts_def)
next
  case False
  then show ?thesis
    using mp_get_none [of s] assms by (simp add: mp.at_counts_def letters_def)
qed

lemma producer_step:
  assumes at: "mp.at_counts made taken s" and sound: "sound_env env"
  shows "producer env fd s = Inr s' \<Longrightarrow> keeps_up [(fd, Put)] made taken s s'"
    "producer env fd s = Inl (h, s') \<Longrightarrow> sent s' = sent s \<and> h = Exited 1"
proof -
  note quiet = produce_no_eagain [of "trouble1 env" "trouble2 env"] sound [unfolded sound_env_def]
  show "producer env fd s = Inr s' \<Longrightarrow> keeps_up [(fd, Put)] made taken s s'"
  proof -
    assume "producer env fd s = Inr s'"
    then obtain s1 m where 1: "produce_part (trouble1 env) (trouble2 env) s = Inr (s1, m)"
      and s': "s' = s1\<lparr>sent := sent s1 @ [(fd, m)]\<rparr>"
      by (auto simp: producer_def write_reply_def rbind_Inr_iff split: if_splits)
    have "produce_part None None s = Inr (s1, m)" "sent s1 = sent s"
      using quiet 1 part_keeps_sent(1) [OF 1] by auto
    note this produce_counts [OF at] at
    then show ?thesis
      by (intro keeps_upI [of "if made - taken < 26 then Suc made else made" taken])
         (auto simp: s' expected_simps at_counts_frame split: if_splits)
  qed
  show "producer env fd s = Inl (h, s') \<Longrightarrow> sent s' = sent s \<and> h = Exited 1"
    using quiet part_keeps_sent(1) part_no_fault(1) [of s] at [unfolded mp.at_counts_def]
    by (auto simp: producer_def write_reply_def rbind_Inl_iff split: if_splits)
qed

lemma consumer_step:
  assumes at: "mp.at_counts made taken s" and sound: "sound_env env"
  shows "consumer env fd s = Inr s' \<Longrightarrow> keeps_up [(fd, Get)] made taken s s'"
    "consumer env fd s = Inl (h, s') \<Longrightarrow> sent s' = sent s \<and> h = Exited 1"
proof -
  note quiet = consume_no_eagain [of "trouble1 env" "trouble2 env"] sound [unfolded sound_env_def]
  show "consumer env fd s = Inr s' \<Longrightarrow> keeps_up [(fd, Get)] made taken s s'"
  proof -
    assume "consumer env fd s = Inr s'"
    then obtain s1 m where 1: "consume_part (trouble1 env) (trouble2 env) s = Inr (s1, m)"
      and s': "s' = s1\<lparr>sent := sent s1 @ [(fd, m)]\<rparr>"
      by (auto simp: consumer_def write_reply_def rbind_Inr_iff split: if_splits)
    have "consume_part None None s = Inr (s1, m)" "sent s1 = sent s"
      using quiet 1 part_keeps_sent(2) [OF 1] by auto
    note this consume_counts [OF at] at
    then show ?thesis
      by (intro keeps_upI [of made "if taken < made then Suc taken else taken"])
         (auto simp: s' expected_simps at_counts_frame split: if_splits)
  qed
  show "consumer env fd s = Inl (h, s') \<Longrightarrow> sent s' = sent s \<and> h = Exited 1"
    using quiet part_keeps_sent(2) part_no_fault(2) [of s] at [unfolded mp.at_counts_def]
    by (auto simp: consumer_def write_reply_def rbind_Inl_iff split: if_splits)
qed


section \<open>The worker, the events of a round, the loop\<close>

lemma worker_step:
  assumes at: "mp.at_counts made taken s" and sound: "sound_env env"
  shows "worker t env fd s = Inr s' \<Longrightarrow> keeps_up (requests [On_conn fd env]) made taken s s'"
    "worker t env fd s = Inl (h, s') \<Longrightarrow>
       cut_short (requests [On_conn fd env]) made taken s s' \<and> h \<in> {Exited 1, Blocked}"
proof -
  note unf = worker_def Let_def rbind_Inr_iff rbind_Inl_iff
  show "worker t env fd s = Inr s' \<Longrightarrow> keeps_up (requests [On_conn fd env]) made taken s s'"
    using producer_step(1) [OF at sound] consumer_step(1) [OF at sound]
      keeps_up_nothing [OF at refl]
    by (auto simp: unf intro!: keeps_up_frame split: read_result.splits if_splits)
  show "worker t env fd s = Inl (h, s') \<Longrightarrow>
      cut_short (requests [On_conn fd env]) made taken s s' \<and> h \<in> {Exited 1, Blocked}"
    using producer_step(2) [OF at sound] consumer_step(2) [OF at sound]
    by (auto simp: unf intro!: cut_short_same split: read_result.splits if_splits)
qed

lemma mp_events_step:
  "mp.at_counts made taken s \<Longrightarrow> list_all sound_event evs \<Longrightarrow>
     (case mp_events t evs s of
        Inr s' \<Rightarrow> keeps_up (requests evs) made taken s s'
      | Inl (h, s') \<Rightarrow> cut_short (requests evs) made taken s s' \<and> h \<in> {Exited 1, Blocked})"
proof (induction t evs s arbitrary: made taken rule: mp_events.induct)
  case (1 t s)
  then show ?case by (simp add: keeps_up_nothing)
next
  case (2 t evs s)
  then show ?case by (simp add: cut_short_same)
next
  case (3 t fd ctl_ok evs s)
  let ?s = "s\<lparr>conns := conns s @ [fd]\<rparr>"
  show ?case
  proof (cases ctl_ok)
    case True
    have "mp.at_counts made taken ?s"
      using "3.prems" by (simp add: at_counts_frame)
    with "3.IH" [OF refl True] "3.prems" show ?thesis
      using True by (auto simp: Let_def keeps_up_def cut_short_def split: sum.splits)
  next
    case False
    then show ?thesis by (simp add: Let_def cut_short_same)
  qed
next
  case (4 t fd env evs s)
  have sound: "sound_env env" "list_all sound_event evs"
    using "4.prems" by simp_all
  note first = worker_step [OF "4.prems"(1) sound(1), of t fd]
  have req: "requests (On_conn fd env # evs) = requests [On_conn fd env] @ requests evs"
    by (metis append_Cons append_Nil requests_append)
  show ?case
  proof (cases "worker t env fd s")
    case (Inl hs)
    obtain h s' where "hs = (h, s')" by fastforce
    with Inl first(2) show ?thesis
      unfolding req by (simp add: cut_more del: requests.simps)
  next
    case (Inr s1)
    have then_evs: "case mp_events t evs s1 of
        Inr s' \<Rightarrow> keeps_up (requests evs) m' t' s1 s'
      | Inl (h, s') \<Rightarrow> cut_short (requests evs) m' t' s1 s' \<and> h \<in> {Exited 1, Blocked}" if "mp.at_counts m' t' s1" for m' t'
      by (rule "4.IH" [OF Inr that sound(2)])
    note keep = first(1) [OF Inr]
    show ?thesis
    proof (cases "mp_events t evs s1")
      case l: (Inl hs)
      obtain h s' where hs: "hs = (h, s')" by fastforce
      have "cut_short (requests [On_conn fd env] @ requests evs) made taken s s'"
        by (rule keeps_up_cut [OF keep]) (use then_evs l hs in auto)
      moreover have "h \<in> {Exited 1, Blocked}"
        using keep then_evs l hs by (auto simp: keeps_up_def)
      ultimately show ?thesis
        unfolding req using Inr l hs by (simp del: requests.simps)
    next
      case r: (Inr s2)
      have "keeps_up (requests [On_conn fd env] @ requests evs) made taken s s2"
        by (rule keeps_up_trans [OF keep]) (use then_evs r in auto)
      then show ?thesis
        unfolding req using Inr r by (simp del: requests.simps)
    qed
  qed
qed

fun final_state :: "mp_result \<Rightarrow> mp_state" where
  "final_state (Running s) = s"
| "final_state (Stopped h s removed) = s"

lemma mp_loop_step:
  "mp.at_counts made taken s \<Longrightarrow> list_all sound_event (round_events rs) \<Longrightarrow>
     cut_short (requests (round_events rs)) made taken s (final_state (mp_loop ok rs s)) \<and>
     (\<forall>s'. mp_loop ok rs s = Running s' \<longrightarrow> keeps_up (requests (round_events rs)) made taken s s') \<and>
     (\<forall>h s' b. mp_loop ok rs s = Stopped h s' b \<longrightarrow> h \<in> {Exited 0, Exited 1, Blocked})"
proof (induction ok rs s arbitrary: made taken rule: mp_loop.induct)
  case (1 ok s)
  then show ?case by (simp add: keeps_up_nothing cut_short_same)
next
  case (2 ok r rs s)
  show ?case
  proof (cases "sigint_seen r \<or> waited r = Wait_failed")
    case True
    then show ?thesis by (auto simp: cut_short_same)
  next
    case False
    then obtain evs where evs: "\<not> sigint_seen r" "waited r = Events evs"
      by (cases "waited r") auto
    then have sound: "list_all sound_event evs" "list_all sound_event (round_events rs)"
      using "2.prems" by simp_all
    note first = mp_events_step [OF "2.prems"(1) sound(1), of "starttime r"]
    show ?thesis
    proof (cases "mp_events (starttime r) evs s")
      case (Inl hs)
      obtain h s' where "hs = (h, s')" by fastforce
      then show ?thesis
        using first Inl evs by (simp add: requests_append cut_more)
    next
      case (Inr s1)
      have keep: "keeps_up (requests evs) made taken s s1" using first Inr by simp
      note rest = "2.IH" [OF evs Inr _ sound(2)]
      have "cut_short (requests evs @ requests (round_events rs)) made taken s
          (final_state (mp_loop ok rs s1))"
        by (rule keeps_up_cut [OF keep]) (use rest in blast)
      moreover have "keeps_up (requests evs @ requests (round_events rs)) made taken s s'"
        if "mp_loop ok rs s1 = Running s'" for s'
        by (rule keeps_up_trans [OF keep]) (use rest that in blast)
      moreover have "h \<in> {Exited 0, Exited 1, Blocked}" if "mp_loop ok rs s1 = Stopped h s' b" for h s' b
        using keep rest that by (auto simp: keeps_up_def)
      ultimately show ?thesis
        using evs Inr by (simp add: requests_append)
    qed
  qed
qed

lemma mp_start_counts: "length junk = 26 \<Longrightarrow> mp.at_counts 0 0 (mp_start junk)"
proof -
  assume "length junk = 26"
  moreover have "letter 0 = CHR ''a''" by code_simp
  ultimately show ?thesis
    by (simp add: mp.at_counts_def mp_start_def mp_inv_def mp_stored_def mp_consts)
qed


section \<open>Reading the replies\<close>

definition is_letter_reply :: "char list \<Rightarrow> bool" where
  "is_letter_reply m \<longleftrightarrow> m \<noteq> OK \<and> m \<noteq> ER"

lemma letter_replies:
  "map hd (filter is_letter_reply (map reply_bytes rs)) = got rs"
  "length (filter (\<lambda>m. m = OK) (map reply_bytes rs)) = accepted rs"
proof -
  have [simp]: "[c, nul, nul] \<noteq> OK" for c by (simp add: OK_def)
  show "map hd (filter is_letter_reply (map reply_bytes rs)) = got rs"
    by (induction rs) (auto simp: is_letter_reply_def got_def split: reply.split elim: reply_bytes.elims)
  have [simp]: "reply_bytes r = OK \<longleftrightarrow> r = Accepted" for r by (cases r) simp_all
  show "length (filter (\<lambda>m. m = OK) (map reply_bytes rs)) = accepted rs"
    by (induction rs) (auto simp: accepted_def)
qed

lemma expected_replies: "map snd (expected rs made taken) = map reply_bytes (queue_spec 26 (map snd rs) made taken)"
  by (simp add: expected_def)

lemma sent_prefix:
  assumes "length junk = 26" "list_all sound_event (round_events rs)"
  shows "\<exists>rest. expected (requests (round_events rs)) 0 0 =
      sent (final_state (mp_loop ok rs (mp_start junk))) @ rest"
    and "mp_loop ok rs (mp_start junk) = Running s' \<Longrightarrow>
      sent s' = expected (requests (round_events rs)) 0 0"
proof -
  note run = mp_loop_step [OF mp_start_counts [OF assms(1)] assms(2), of ok]
  have empty: "sent (mp_start junk) = []" by (simp add: mp_start_def)
  show "\<exists>rest. expected (requests (round_events rs)) 0 0 =
      sent (final_state (mp_loop ok rs (mp_start junk))) @ rest"
    using run empty unfolding cut_short_def by (metis append_Nil append_Nil2)
  assume "mp_loop ok rs (mp_start junk) = Running s'"
  then obtain m' t' where
    "\<forall>more. expected (requests (round_events rs) @ more) 0 0 = sent s' @ expected more m' t'"
    using run empty unfolding keeps_up_def by (metis append_Nil)
  from this [THEN spec, of "[]"] show "sent s' = expected (requests (round_events rs)) 0 0"
    by (simp add: expected_simps)
qed







section \<open>Properties\<close>

text \<open>
  C2: the server implements a bounded letter queue. For every sequence of rounds, with every
  order of connections and requests and failures of the kernel calls, the replies the server has
  written are an initial part of the replies of the queue of capacity 26 to the requests read,
  each to the connection that asked; while the server is still running they are all of them.
\<close>

theorem mp_serves_queue:
  assumes "length junk = 26" and "list_all sound_event (round_events rs)"
  shows "(\<exists>rest. expected (requests (round_events rs)) 0 0 =
        sent (final_state (mp_loop ok rs (mp_start junk))) @ rest) \<and>
     (\<forall>s'. mp_loop ok rs (mp_start junk) = Running s' \<longrightarrow>
        sent s' = expected (requests (round_events rs)) 0 0)"
  using sent_prefix [OF assms] by blast

abbreviation quiet_env :: "read_result \<Rightarrow> conn_env" where
  "quiet_env r \<equiv> \<lparr>got_byte = r, trouble1 = None, trouble2 = None, write_ok = True, endtime = (0, 0)\<rparr>"

abbreviation plain_round :: "mp_event list \<Rightarrow> round" where
  "plain_round evs \<equiv> \<lparr>sigint_seen = False, waited = Events evs, starttime = (0, 0)\<rparr>"

theorem mp_serves_queue_witness:
  "\<exists>rest. [(5, OK), (6, [CHR ''a'', nul, nul]), (7, ER)] =
     sent (final_state (mp_loop True
       [plain_round [On_listen (Some (5, True)), On_conn 5 (quiet_env (Rd_byte CHR ''p''))],
        plain_round [On_conn 6 (quiet_env (Rd_byte CHR ''c'')), On_conn 7 (quiet_env (Rd_byte CHR ''c''))]]
       (mp_start (replicate 26 nul)))) @ rest"
proof -
  let ?rs = "[plain_round [On_listen (Some (5, True)), On_conn 5 (quiet_env (Rd_byte CHR ''p''))],
       plain_round [On_conn 6 (quiet_env (Rd_byte CHR ''c'')), On_conn 7 (quiet_env (Rd_byte CHR ''c''))]]"
  have "letter 0 = CHR ''a''" by code_simp
  then have e: "expected (requests (round_events ?rs)) 0 0 = [(5, OK), (6, [CHR ''a'', nul, nul]), (7, ER)]"
    by (simp add: expected_def)
  have "list_all sound_event (round_events ?rs)" by (simp add: sound_env_def)
  then show ?thesis
    using mp_serves_queue [of "replicate 26 nul" ?rs True, THEN conjunct1, unfolded e]
    by (simp del: mp_loop.simps)
qed

text \<open>
  C20: letters come out in alphabetical order, starting over after z: the letter replies of any
  run are the first k letters, where k is at most the number n of OK replies and n is at most
  k + 26, so no letter is lost, repeated or overwritten in the ring buffer.
\<close>

theorem mp_letters_in_order:
  assumes "length junk = 26" and "list_all sound_event (round_events rs)"
  shows "let out = map snd (sent (final_state (mp_loop ok rs (mp_start junk))));
           k = length (filter is_letter_reply out); n = length (filter (\<lambda>m. m = OK) out)
         in map hd (filter is_letter_reply out) = letters 0 k \<and> k \<le> n \<and> n \<le> k + 26"
proof -
  let ?out = "map snd (sent (final_state (mp_loop ok rs (mp_start junk))))"
  obtain rest where "expected (requests (round_events rs)) 0 0 =
      sent (final_state (mp_loop ok rs (mp_start junk))) @ rest"
    using sent_prefix(1) [OF assms, of ok] by blast
  then have "?out = take (length ?out) (map snd (expected (requests (round_events rs)) 0 0))"
    by simp
  also have "\<dots> = map reply_bytes (queue_spec 26 (take (length ?out) (map snd (requests (round_events rs)))) 0 0)"
    unfolding expected_replies take_map queue_spec_take ..
  finally obtain rs' where out: "?out = map reply_bytes (queue_spec 26 rs' 0 0)" by blast
  let ?r = "queue_spec 26 rs' 0 0"
  have k: "length (filter is_letter_reply ?out) = length (got ?r)"
    unfolding out by (metis letter_replies(1) length_map)
  show ?thesis
    using queue_spec_order [of 0 0 26 rs'] queue_spec_bounds [of 0 0 26 rs']
    unfolding Let_def k unfolding out letter_replies by simp
qed

theorem mp_letters_in_order_witness:
  "let out = map snd (sent (final_state (mp_loop True
        [plain_round [On_conn 5 (quiet_env (Rd_byte CHR ''p''))]] (mp_start (replicate 26 nul)))))
   in length (filter (\<lambda>m. m = OK) out) \<le> length (filter is_letter_reply out) + 26"
  using mp_letters_in_order [of "replicate 26 nul" "[plain_round [On_conn 5 (quiet_env (Rd_byte CHR ''p''))]]" True]
  by (simp add: sound_env_def Let_def)





text \<open>
  Set-up. Either every call succeeds and the loop starts with the initialised semaphore set, the
  log file, the listening socket and the \<open>epoll\<close> descriptor, or the set-up ends with what it
  opened closed again, except that a semaphore set that exists is never removed and the
  \<open>epoll\<close> descriptor is left to the end of the process.
\<close>

lemma mp_setup_outcomes:
  "\<exists>m. replay (fst (mp_setup env)) no_slots = Some m \<and>
     (snd (mp_setup env) \<longrightarrow>
        m Sem_set = Ready \<and> held m = {Sem_set, Log_file, Listen_sock, Epoll_fd}) \<and>
     (\<not> snd (mp_setup env) \<longrightarrow>
        held m \<subseteq> {Sem_set, Epoll_fd} \<and>
        (Sem_set \<in> held m \<longleftrightarrow> signal_ok env \<and> ftok_ok env \<and> semget_ok env))"
  by (simp add: mp_setup_def Let_def no_slots_def held_no_slots [unfolded no_slots_def] insert_commute)

end
