(* ===== verification/Mthread_Server.thy ===== *)
theory Mthread_Server
  imports Semaphores Letter_Queue
begin

text \<open>
  The thread-per-connection letter server of \<open>client-server-af-inet/multithread/server.c\<close>. The
  shared variables are \<open>mt_shared\<close>; a thread is a program counter with its local variables; the
  main thread keeps \<open>connfd\<close>, whose address every new thread is given. An action is one atomic
  step of one thread (\<open>mt_do\<close>), so an interleaving is a list of actions.
\<close>

section \<open>Shared state and the critical sections\<close>

definition SE :: nat where "SE = 0"
definition SF :: nat where "SF = 1"
definition SB :: nat where "SB = 2"
definition RING_BUF_SIZE :: nat where "RING_BUF_SIZE = 26"
definition SE_START :: nat where "SE_START = 4096"

lemmas mt_consts = SE_def SF_def SB_def RING_BUF_SIZE_def SE_START_def

record mt_shared =
  semvals :: semset
  ring_buffer :: "char list"
  p_index :: nat
  c_index :: nat

definition start_produce :: "sembuf list" where "start_produce = [sem_down SE, sem_down SB]"
definition stop_produce :: "sembuf list" where "stop_produce = [sem_up SB, sem_up SF]"
definition start_consume :: "sembuf list" where "start_consume = [sem_down SF, sem_down SB]"
definition stop_consume :: "sembuf list" where "stop_consume = [sem_up SB, sem_up SE]"

lemmas semop_defs = start_produce_def stop_produce_def start_consume_def stop_consume_def

definition semop :: "sembuf list \<Rightarrow> mt_shared \<Rightarrow> mt_shared option" where
  "semop ops s = map_option (\<lambda>v. s\<lparr>semvals := v\<rparr>) (sem_apply ops (semvals s))"

definition wrap_index :: "nat \<Rightarrow> nat" where
  "wrap_index i = (if i + 1 \<ge> RING_BUF_SIZE then 0 else i + 1)"

definition produce_access :: "mt_shared \<Rightarrow> mt_shared may_fault" where
  "produce_access s =
     (if p_index s < length (ring_buffer s) then
        Inr (s\<lparr>ring_buffer := (ring_buffer s)[p_index s := char_of (97 + p_index s)],
               p_index := wrap_index (p_index s)\<rparr>)
      else Inl Out_Of_Bounds)"

definition consume_access :: "mt_shared \<Rightarrow> (char \<times> mt_shared) may_fault" where
  "consume_access s =
     (if c_index s < length (ring_buffer s) then
        Inr (ring_buffer s ! c_index s, s\<lparr>c_index := wrap_index (c_index s)\<rparr>)
      else Inl Out_Of_Bounds)"

definition mt_shared_start :: mt_shared where
  "mt_shared_start =
     \<lparr>semvals = [SE_START, 0, 1], ring_buffer = replicate RING_BUF_SIZE nul, p_index = 0, c_index = 0\<rparr>"

section \<open>Threads and interleavings\<close>

datatype kind = Producing | Consuming

datatype pc = Created | Started | Locked | Accessed | Sent | Finished

text \<open>
  \<open>my_fd\<close> is the local \<open>connfd\<close> of a thread; \<open>opened_for\<close> is the connection it was created for,
  which no code reads.
\<close>

record thread =
  tkind :: kind
  tpc :: pc
  my_fd :: "nat option"
  tletter :: char
  opened_for :: nat

record mt_state =
  shared :: mt_shared
  main_connfd :: "nat option"
  pending :: bool \<comment> \<open>\<open>accept\<close> has returned, the request byte is not read yet\<close>
  threads :: "thread list"
  outbox :: "(nat \<times> char list) list"
  ended :: "halt option"

datatype mt_action =
  Accept nat | Spawn kind | Odd_byte bool | Read_arg nat | Lock nat | Access nat
| Send nat char | Unlock nat | Call_fails | Recv_fails | Quit

definition set_thread :: "nat \<Rightarrow> thread \<Rightarrow> mt_state \<Rightarrow> mt_state" where
  "set_thread i t s = s\<lparr>threads := (threads s)[i := t]\<rparr>"

definition start_ops :: "kind \<Rightarrow> sembuf list" where
  "start_ops k = (case k of Producing \<Rightarrow> start_produce | Consuming \<Rightarrow> start_consume)"

definition stop_ops :: "kind \<Rightarrow> sembuf list" where
  "stop_ops k = (case k of Producing \<Rightarrow> stop_produce | Consuming \<Rightarrow> stop_consume)"

definition status_bytes :: "char list" where
  \<comment> \<open>\<open>int status = 0\<close> as it is sent\<close>
  "status_bytes = [nul, nul, nul, nul]"

definition thread_at :: "mt_state \<Rightarrow> nat \<Rightarrow> pc \<Rightarrow> bool" where
  "thread_at s i p \<longleftrightarrow> i < length (threads s) \<and> tpc (threads s ! i) = p"

fun mt_do :: "mt_action \<Rightarrow> mt_state \<Rightarrow> mt_state option" where
  "mt_do (Accept fd) s =
     (if pending s then None else Some (s\<lparr>main_connfd := Some fd, pending := True\<rparr>))"
| "mt_do (Spawn k) s =
     (case main_connfd s of
        Some fd \<Rightarrow>
          if pending s then
            Some (s\<lparr>pending := False,
                    threads := threads s @ [\<lparr>tkind = k, tpc = Created, my_fd = None, tletter = nul, opened_for = fd\<rparr>]\<rparr>)
          else None
      | None \<Rightarrow> None)"
| "mt_do (Odd_byte detach_ok) s =
     \<comment> \<open>no thread is created and \<open>pthread_detach\<close> is given the handle of an earlier one\<close>
     (if \<not> pending s then None
      else if threads s = [] then Some (s\<lparr>pending := False, ended := Some (Faulted Uninitialised)\<rparr>)
      else if detach_ok then Some (s\<lparr>pending := False\<rparr>)
      else Some (s\<lparr>pending := False, ended := Some (Exited 1)\<rparr>))"
| "mt_do (Read_arg i) s =
     (if thread_at s i Created
      then Some (set_thread i ((threads s ! i)\<lparr>tpc := Started, my_fd := main_connfd s\<rparr>) s) else None)"
| "mt_do (Lock i) s =
     (if thread_at s i Started
      then map_option (\<lambda>sh. set_thread i ((threads s ! i)\<lparr>tpc := Locked\<rparr>) (s\<lparr>shared := sh\<rparr>))
             (semop (start_ops (tkind (threads s ! i))) (shared s))
      else None)"
| "mt_do (Access i) s =
     (if thread_at s i Locked then
        (let t = threads s ! i in
         case tkind t of
           Producing \<Rightarrow>
             (case produce_access (shared s) of
                Inl f \<Rightarrow> Some (s\<lparr>ended := Some (Faulted f)\<rparr>)
              | Inr sh \<Rightarrow> Some (set_thread i (t\<lparr>tpc := Accessed\<rparr>) (s\<lparr>shared := sh\<rparr>)))
         | Consuming \<Rightarrow>
             (case consume_access (shared s) of
                Inl f \<Rightarrow> Some (s\<lparr>ended := Some (Faulted f)\<rparr>)
              | Inr (c, sh) \<Rightarrow> Some (set_thread i (t\<lparr>tpc := Accessed, tletter := c\<rparr>) (s\<lparr>shared := sh\<rparr>))))
      else None)"
| "mt_do (Send i junk) s =
     (if thread_at s i Accessed then
        (let t = threads s ! i;
             msg = (case tkind t of Producing \<Rightarrow> status_bytes | Consuming \<Rightarrow> [junk, tletter t]) in
         case my_fd t of
           Some fd \<Rightarrow> Some (set_thread i (t\<lparr>tpc := Sent\<rparr>) (s\<lparr>outbox := outbox s @ [(fd, msg)]\<rparr>))
         | None \<Rightarrow> None)
      else None)"
| "mt_do (Unlock i) s =
     (if thread_at s i Sent
      then map_option (\<lambda>sh. set_thread i ((threads s ! i)\<lparr>tpc := Finished\<rparr>) (s\<lparr>shared := sh\<rparr>))
             (semop (stop_ops (tkind (threads s ! i))) (shared s))
      else None)"
| "mt_do Call_fails s = Some (s\<lparr>ended := Some (Exited 1)\<rparr>)"
| "mt_do Recv_fails s =
     \<comment> \<open>the first byte of the accepted connection cannot be read: the loop is left\<close>
     (if pending s then Some (s\<lparr>pending := False, ended := Some (Exited 0)\<rparr>) else None)"
| "mt_do Quit s = (if pending s then None else Some (s\<lparr>ended := Some (Exited 0)\<rparr>))"

definition mt_act :: "mt_action \<Rightarrow> mt_state \<Rightarrow> mt_state option" where
  "mt_act a s = (if ended s = None then mt_do a s else None)"

fun mt_exec :: "mt_action list \<Rightarrow> mt_state \<Rightarrow> mt_state option" where
  "mt_exec [] s = Some s"
| "mt_exec (a # as) s = (case mt_act a s of None \<Rightarrow> None | Some s' \<Rightarrow> mt_exec as s')"

definition mt_init :: mt_state where
  "mt_init = \<lparr>shared = mt_shared_start, main_connfd = None, pending = False, threads = [],
              outbox = [], ended = None\<rparr>"

inductive mt_step :: "mt_state \<Rightarrow> mt_state \<Rightarrow> bool" where
  mt_stepI: "mt_act a s = Some t \<Longrightarrow> mt_step s t"

inductive_cases mt_stepE: "mt_step s t"

section \<open>The critical sections implement the letter queue\<close>

definition mt_put :: "mt_shared \<Rightarrow> mt_shared option" where
  "mt_put s =
     (case semop start_produce s of
        None \<Rightarrow> None
      | Some s1 \<Rightarrow> (case produce_access s1 of Inl _ \<Rightarrow> None | Inr s2 \<Rightarrow> semop stop_produce s2))"

definition mt_get :: "mt_shared \<Rightarrow> (char \<times> mt_shared) option" where
  "mt_get s =
     (case semop start_consume s of
        None \<Rightarrow> None
      | Some s1 \<Rightarrow>
          (case consume_access s1 of
             Inl _ \<Rightarrow> None
           | Inr (c, s2) \<Rightarrow> map_option (\<lambda>s3. (c, s3)) (semop stop_consume s2)))"

definition mt_stored :: "mt_shared \<Rightarrow> char list" where
  "mt_stored s = map (\<lambda>j. ring_buffer s ! ((c_index s + j) mod 26)) [0..<semvals s ! SF]"

definition mt_inv :: "mt_shared \<Rightarrow> bool" where
  "mt_inv s \<longleftrightarrow>
     length (ring_buffer s) = 26 \<and> c_index s < 26 \<and>
     (\<exists>k \<le> 4096. semvals s = [4096 - k, k, 1] \<and> p_index s = (c_index s + k) mod 26 \<and>
        (\<forall>j < k. ring_buffer s ! ((c_index s + j) mod 26) = letter (c_index s + j)))"

lemma wrap_index_mod: "i < 26 \<Longrightarrow> wrap_index i = Suc i mod 26"
  by (cases "i = 25") (simp_all add: wrap_index_def RING_BUF_SIZE_def)

lemma slot_letter: "i < 26 \<Longrightarrow> char_of (97 + i) = letter i"
  by (simp add: letter_def)

lemma mt_invE:
  assumes "mt_inv s"
  obtains k where "k \<le> 4096" "semvals s = [4096 - k, k, 1]" "p_index s = (c_index s + k) mod 26"
    "length (ring_buffer s) = 26" "c_index s < 26" "length (mt_stored s) = k"
    "\<forall>j < k. ring_buffer s ! ((c_index s + j) mod 26) = letter (c_index s + j)"
  using assms by (auto simp: mt_inv_def mt_stored_def mt_consts)

text \<open>
  The ring has 26 slots and the semaphore admits 4096 letters, so puts overwrite slots that
  have not been read; but what slot \<open>i\<close> holds is always the letter \<open>i\<close>.
\<close>

lemma mt_put_room:
  assumes "mt_inv s" "length (mt_stored s) < 4096"
  shows "\<exists>s'. mt_put s = Some s' \<and> mt_inv s' \<and> mt_stored s' = mt_stored s @ [letter (p_index s)] \<and>
    p_index s' = Suc (p_index s) mod 26"
proof -
  obtain k where k: "k \<le> 4096" "semvals s = [4096 - k, k, 1]" and
    p: "p_index s = (c_index s + k) mod 26" and
    rest: "length (ring_buffer s) = 26" "c_index s < 26" and len: "length (mt_stored s) = k"
    and slots: "\<forall>j < k. ring_buffer s ! ((c_index s + j) mod 26) = letter (c_index s + j)"
    using assms(1) by (rule mt_invE)
  have less: "k < 4096" using assms(2) len by simp
  have p26: "p_index s < 26" using p by simp
  let ?ring = "(ring_buffer s)[p_index s := letter (p_index s)]"
  let ?s = "s\<lparr>semvals := [4095 - k, Suc k, 1], ring_buffer := ?ring, p_index := Suc (p_index s) mod 26\<rparr>"
  have run: "mt_put s = Some ?s"
    using k less rest p26
    by (simp add: mt_put_def semop_def semop_defs mt_consts produce_access_def wrap_index_mod
        slot_letter numeral_2_eq_2)
  have slots': "?ring ! ((c_index s + j) mod 26) = letter (c_index s + j)" if "j < Suc k" for j
  proof (cases "(c_index s + j) mod 26 = p_index s")
    case True
    have "letter (p_index s) = letter (c_index s + j)"
      unfolding True [symmetric] by (rule letter_mod)
    then show ?thesis using True p26 rest by simp
  next
    case False
    then have "j < k" using that p by (cases "j = k") auto
    then show ?thesis using False slots by (simp add: nth_list_update)
  qed
  have "mt_inv ?s"
    using less rest p slots' by (auto simp: mt_inv_def mod_Suc_eq intro!: exI [of _ "Suc k"])
  moreover have "mt_stored ?s = map (\<lambda>j. letter (c_index s + j)) [0..<Suc k]"
    using slots' by (simp add: mt_stored_def mt_consts del: upt_Suc)
  moreover have "mt_stored s = map (\<lambda>j. letter (c_index s + j)) [0..<k]"
    using slots k by (simp add: mt_stored_def mt_consts)
  moreover have "letter (c_index s + k) = letter (p_index s)"
    unfolding p by (simp only: letter_mod)
  ultimately show ?thesis using run by simp
qed

lemma mt_put_full:
  assumes "mt_inv s" "\<not> length (mt_stored s) < 4096"
  shows "mt_put s = None"
  using assms(1)
proof (rule mt_invE)
  fix k assume "k \<le> 4096" "semvals s = [4096 - k, k, 1]" "length (mt_stored s) = k"
  with assms(2) show ?thesis
    by (simp add: mt_put_def semop_def semop_defs mt_consts)
qed

lemma mt_get_some:
  assumes "mt_inv s" "mt_stored s = c # cs"
  shows "\<exists>s'. mt_get s = Some (c, s') \<and> mt_inv s' \<and> mt_stored s' = cs \<and> p_index s' = p_index s"
proof -
  obtain k where k: "k \<le> 4096" "semvals s = [4096 - k, k, 1]" and
    p: "p_index s = (c_index s + k) mod 26" and
    rest: "length (ring_buffer s) = 26" "c_index s < 26" and len: "length (mt_stored s) = k"
    and slots: "\<forall>j < k. ring_buffer s ! ((c_index s + j) mod 26) = letter (c_index s + j)"
    using assms(1) by (rule mt_invE)
  obtain k' where k': "k = Suc k'" using len assms(2) by (cases k) auto
  let ?s = "s\<lparr>semvals := [Suc (4096 - k), k', 1], c_index := Suc (c_index s) mod 26\<rparr>"
  have "mt_stored s = map (\<lambda>j. ring_buffer s ! ((c_index s + j) mod 26)) (0 # map Suc [0..<k'])"
    unfolding mt_stored_def using k k' by (simp add: mt_consts upt_conv_Cons map_Suc_upt del: upt_Suc)
  then have c: "c = ring_buffer s ! c_index s"
    and cs: "cs = map (\<lambda>j. ring_buffer s ! ((c_index s + Suc j) mod 26)) [0..<k']"
    using assms(2) rest by simp_all
  have run: "mt_get s = Some (c, ?s)"
    using k k' rest c
    by (simp add: mt_get_def semop_def semop_defs mt_consts consume_access_def wrap_index_mod numeral_2_eq_2)
  have slots': "ring_buffer s ! ((Suc (c_index s) mod 26 + j) mod 26) = letter (Suc (c_index s) mod 26 + j)"
    if "j < k'" for j
  proof -
    have "(Suc (c_index s) mod 26 + j) mod 26 = (c_index s + Suc j) mod 26"
      by (simp add: mod_simps)
    moreover from this have "letter (Suc (c_index s) mod 26 + j) = letter (c_index s + Suc j)"
      by (rule letter_cong)
    ultimately show ?thesis using slots [THEN spec, of "Suc j"] that k' by simp
  qed
  have "mt_inv ?s"
    using rest p k k' slots' by (auto simp: mt_inv_def mod_simps intro!: exI [of _ k'])
  moreover have "mt_stored ?s = cs"
    by (simp add: mt_stored_def mt_consts cs mod_simps)
  ultimately show ?thesis using run by auto
qed

lemma mt_get_none:
  assumes "mt_inv s" "mt_stored s = []"
  shows "mt_get s = None"
  using assms(1)
proof (rule mt_invE)
  fix k assume "semvals s = [4096 - k, k, 1]" "length (mt_stored s) = k"
  with assms(2) show ?thesis
    by (simp add: mt_get_def semop_def semop_defs mt_consts)
qed

interpretation mt: letter_queue mt_put mt_get mt_inv mt_stored p_index 4096
  by unfold_locales (simp_all add: mt_put_room mt_put_full mt_get_some mt_get_none)

lemma mt_start_counts: "mt.at_counts 0 0 mt_shared_start"
  by (simp add: mt.at_counts_def mt_shared_start_def mt_inv_def mt_stored_def mt_consts)

end
