(* ===== verification/Mthread_Main.thy ===== *)
theory Mthread_Main
  imports Mthread_Run Kmodule
begin

text \<open>
  The rest of \<open>multithread/server.c\<close>: the set-up in \<open>main\<close>, with the outcome of every call as a
  parameter, and the service time that both thread functions log.
\<close>

section \<open>Set-up\<close>




section \<open>Service time\<close>

text \<open>
  \<open>start\<close> and \<open>end\<close> are \<open>unsigned long long\<close> and hold only \<open>tv_nsec\<close>; the logged value is their
  difference divided by 1000.
\<close>

definition mt_elapsed :: "int \<times> int \<Rightarrow> int \<times> int \<Rightarrow> u64" where
  "mt_elapsed t0 t1 = (let start = (of_int (snd t0) :: u64); end_time = of_int (snd t1) in end_time - start)"

definition true_elapsed :: "int \<times> int \<Rightarrow> int \<times> int \<Rightarrow> int" where
  "true_elapsed t0 t1 = (fst t1 - fst t0) * 1000000000 + (snd t1 - snd t0)"

lemma uint_of_int_diff:
  assumes "0 \<le> a" "a < 1000000000" "0 \<le> b" "b < 1000000000"
  shows "uint (of_int b - of_int a :: u64) = (if a \<le> b then b - a else 18446744073709551616 + b - a)"
proof -
  have "(of_int b - of_int a :: u64) = of_int (b - a)" by simp
  then have u: "uint (of_int b - of_int a :: u64) = (b - a) mod 18446744073709551616"
    by (simp only: unsigned_of_int take_bit_eq_mod) simp
  show ?thesis
  proof (cases "a \<le> b")
    case True
    then show ?thesis using u assms by simp
  next
    case False
    have "(b - a) mod 18446744073709551616 = (b - a + 18446744073709551616) mod 18446744073709551616"
      by simp
    also have "\<dots> = b - a + 18446744073709551616"
      using False assms by (intro mod_pos_pos_trivial) auto
    finally show ?thesis using u False by simp
  qed
qed

section \<open>Properties\<close>



text \<open>
  C39: the logged service time is right only when start and end lie in the same second; when
  the second changes in between it is off by the whole seconds, and wraps around to
  almost 2 to the 64 when the end has the smaller nanosecond part.
\<close>

theorem mt_elapsed_right_iff:
  assumes "0 \<le> snd t0" "snd t0 < 1000000000" "0 \<le> snd t1" "snd t1 < 1000000000"
    and "0 \<le> true_elapsed t0 t1" "true_elapsed t0 t1 < 9223372036854775808"
  shows "(uint (mt_elapsed t0 t1) = true_elapsed t0 t1 \<longleftrightarrow> fst t0 = fst t1) \<and>
    (snd t1 < snd t0 \<longrightarrow> 18446744072709551616 < uint (mt_elapsed t0 t1))"
proof -
  have "uint (mt_elapsed t0 t1) =
      (if snd t0 \<le> snd t1 then snd t1 - snd t0 else 18446744073709551616 + snd t1 - snd t0)"
    using uint_of_int_diff [OF assms(1-4)] by (simp add: mt_elapsed_def Let_def)
  then show ?thesis
    using assms by (auto simp: true_elapsed_def)
qed

theorem mt_elapsed_right_iff_witness:
  "uint (mt_elapsed (7, 999999000) (8, 1000)) \<noteq> true_elapsed (7, 999999000) (8, 1000)"
  using mt_elapsed_right_iff [of "(7, 999999000)" "(8, 1000)"] by (simp add: true_elapsed_def)

end
