(* ===== verification/Letter_Clients.thy ===== *)
theory Letter_Clients
  imports Mplex_Serving Mthread_Main Printf
begin

text \<open>
  The three clients of the letter servers: \<open>multiplex/client.c\<close>, \<open>multiplex/client-for-remote.c\<close>
  and \<open>multithread/client.c\<close>. One round of a client is given the outcome of its system
  calls; what it prints and how it ends are the result.
\<close>

section \<open>multiplex/client.c\<close>

definition ITER :: nat where "ITER = 10000"

record client_env =
  stopped_by_sigint :: bool \<comment> \<open>\<open>fl\<close> is 0 at this round's test\<close>
  socket_works :: bool
  connect_works :: bool
  write_works :: bool
  reply_read :: "char list option" \<comment> \<open>what \<open>read\<close> put into \<open>buf[3]\<close>; \<open>None\<close> for -1, empty for end of file\<close>

definition toggle :: "nat \<Rightarrow> char \<Rightarrow> char" where
  "toggle i client_type =
     (if i mod 5 = 0 then (if client_type = CHR ''p'' then CHR ''c'' else CHR ''p'') else client_type)"

definition client_line :: "char \<Rightarrow> char list \<Rightarrow> char list" where
  "client_line client_type reply =
     ''Type: '' @ [client_type] @ ''. Result: '' @
     takeWhile (\<lambda>c. c \<noteq> nul) (reply[length reply - 1 := nul]) @ [CHR 0x0A]"

definition terminated_line :: "char list" where
  "terminated_line = ''connection terminated'' @ [CHR 0x0A]"

fun client_loop :: "nat \<Rightarrow> char \<Rightarrow> client_env list \<Rightarrow> (char \<times> char list) list \<times> int option" where
  \<comment> \<open>the requests with the lines printed, and the exit status, \<open>None\<close> if still in the loop\<close>
  "client_loop i ct envs =
     (if \<not> i < ITER then ([], Some 0)
      else
        (case envs of
           [] \<Rightarrow> ([], None)
         | e # es \<Rightarrow>
             if stopped_by_sigint e then ([], Some 0)
             else
               let ct = toggle i ct in
               if \<not> socket_works e \<or> \<not> connect_works e \<or> \<not> write_works e then ([], Some 1)
               else
                 (case reply_read e of
                    None \<Rightarrow> ([(ct, [])], Some 1)
                  | Some r \<Rightarrow>
                      if r = [] then ([(ct, terminated_line)], Some 1)
                      else (case client_loop (i + 1) ct es of
                              (out, st) \<Rightarrow> ((ct, client_line ct r) # out, st)))))"

declare client_loop.simps [simp del]

text \<open>The request letter of round \<open>i\<close>, starting from \<open>client_type = 'p'\<close>.\<close>

definition round_type :: "nat \<Rightarrow> char" where
  "round_type i = (if even (i div 5) then CHR ''c'' else CHR ''p'')"

definition round_request :: "nat \<Rightarrow> request" where
  "round_request i = (if even (i div 5) then Get else Put)"

lemma Suc_div_5: "Suc i div 5 = (if Suc i mod 5 = 0 then Suc (i div 5) else i div 5)"
  by (simp add: div_Suc)

lemma toggle_round: "toggle (Suc i) (round_type i) = round_type (Suc i)"
  by (simp add: toggle_def round_type_def Suc_div_5)

lemma toggle_0: "toggle 0 CHR ''p'' = round_type 0"
  by (simp add: toggle_def round_type_def)

definition reply_text :: "reply \<Rightarrow> char list" where
  "reply_text r = (case r of Accepted \<Rightarrow> ''OK'' | Refused \<Rightarrow> ''ER'' | Letter c \<Rightarrow> [c])"

definition shown :: "nat \<times> reply \<Rightarrow> char \<times> char list" where
  "shown jr =
     (round_type (fst jr),
      ''Type: '' @ [round_type (fst jr)] @ ''. Result: '' @ reply_text (snd jr) @ [CHR 0x0A])"

lemma client_line_reply:
  "(\<And>c. r = Letter c \<Longrightarrow> c \<noteq> nul) \<Longrightarrow>
     (round_type i, client_line (round_type i) (reply_bytes r)) = shown (i, r)"
  by (cases r) (auto simp: shown_def client_line_def reply_text_def OK_def ER_def numeral_2_eq_2)

definition served_env :: "reply \<Rightarrow> client_env" where
  "served_env r = \<lparr>stopped_by_sigint = False, socket_works = True, connect_works = True,
     write_works = True, reply_read = Some (reply_bytes r)\<rparr>"

lemma served_env_simps [simp]:
  "\<not> stopped_by_sigint (served_env r)" "socket_works (served_env r)" "connect_works (served_env r)"
  "write_works (served_env r)" "reply_read (served_env r) = Some (reply_bytes r)"
  by (simp_all add: served_env_def)

lemma reply_bytes_ne [simp]: "reply_bytes r \<noteq> []"
  by (cases r) (simp_all add: OK_def ER_def)

lemma client_loop_served:
  "toggle i ct = round_type i \<Longrightarrow> i + length rs \<le> ITER \<Longrightarrow> (\<forall>c. Letter c \<in> set rs \<longrightarrow> c \<noteq> nul) \<Longrightarrow>
     client_loop i ct (map served_env rs) =
       (map shown (zip [i..<i + length rs] rs), if i + length rs = ITER then Some 0 else None)"
proof (induction rs arbitrary: i ct)
  case Nil
  then show ?case by (simp add: client_loop.simps)
next
  case (Cons r rs)
  have "toggle (Suc i) (round_type i) = round_type (Suc i)" by (rule toggle_round)
  from Cons.IH [OF this] Cons.prems have rest:
    "client_loop (Suc i) (round_type i) (map served_env rs) =
       (map shown (zip [Suc i..<Suc i + length rs] rs), if Suc i + length rs = ITER then Some 0 else None)"
    by (simp del: upt_Suc)
  have "i < ITER" using Cons.prems by simp
  moreover have "[i..<i + length (r # rs)] = i # [Suc i..<Suc i + length rs]"
    by (subst upt_conv_Cons) auto
  moreover have "(round_type i, client_line (round_type i) (reply_bytes r)) = shown (i, r)"
    using Cons.prems(3) by (intro client_line_reply) auto
  ultimately show ?case
    using Cons.prems(1) rest by (simp add: client_loop.simps [of i] Let_def del: upt_Suc)
qed

lemma queue_spec_letters: "Letter c \<in> set (queue_spec cap rs made taken) \<Longrightarrow> c \<noteq> nul"
  by (induction cap rs made taken rule: queue_spec.induct) (auto simp: letter_not_nul letter_not_nul [symmetric] split: if_splits)

section \<open>multiplex/client-for-remote.c\<close>

definition remote_produce_line :: "char list \<Rightarrow> char list" where
  \<comment> \<open>what is printed for the bytes received into \<open>buf[10]\<close>, whose first byte was the request\<close>
  "remote_produce_line reply =
     (let b0 = (case reply of [] \<Rightarrow> CHR ''p'' | c # _ \<Rightarrow> c) in
      (if b0 = CHR ''o'' then ''Success produce'' else ''Error produce'') @ [CHR 0x0A])"

definition remote_consume_line :: "char list \<Rightarrow> char list" where
  "remote_consume_line reply =
     (let b0 = (case reply of [] \<Rightarrow> CHR ''c'' | c # _ \<Rightarrow> c) in
      (if (of_char b0 :: nat) \<le> of_char (CHR ''z'') \<and> (of_char b0 :: nat) \<ge> of_char (CHR ''a'')
       then ''Success consume: '' @ [b0] @ [CHR 0x0A] else ''Error consume'' @ [CHR 0x0A]))"

definition remote_request :: "nat \<Rightarrow> request" where
  "remote_request i = (if i mod 2 = 0 then Put else Get)"

lemma letter_range: "(of_char (letter n) :: nat) \<le> 122 \<and> 97 \<le> (of_char (letter n) :: nat)"
proof -
  have "n mod 26 < 26" by simp
  then show ?thesis
    unfolding letter_def by (simp only: of_char_of take_bit_eq_mod) simp
qed

section \<open>multithread/client.c\<close>

definition mt_client_request :: "nat \<Rightarrow> char" where
  "mt_client_request i = (if i mod 2 = 0 then CHR ''p'' else CHR ''c'')"

definition mt_request_line :: "int \<Rightarrow> char \<Rightarrow> char list \<Rightarrow> char list" where
  \<comment> \<open>\<open>buffer\<close> after \<open>recv\<close> of at least two bytes\<close>
  "mt_request_line pid mode buffer =
     (if mode = CHR ''c'' then ''[C] '' @ dec_int pid @ '' recv: '' @ [buffer ! 1] @ [CHR 0x0A]
      else ''[P] '' @ dec_int pid @ '' recv: '' @ (if buffer ! 1 = nul then ''OK'' else ''ERR'') @ [CHR 0x0A])"

section \<open>Properties\<close>

text \<open>
  C37: client and server together. When the multiplexing server answers its rounds in order, the
  client asks five times for a letter and five times to produce one in turn, and prints for each round the
  answer of the letter queue of capacity 26; after 10000 rounds it exits with 0.
\<close>

theorem mp_client_prints:
  assumes "n \<le> ITER"
  shows "let replies = queue_spec 26 (map round_request [0..<n]) 0 0 in
    client_loop 0 CHR ''p'' (map served_env replies) =
      (map shown (zip [0..<n] replies), if n = ITER then Some 0 else None)"
proof -
  let ?rs = "queue_spec 26 (map round_request [0..<n]) 0 0"
  have len: "length ?rs = n" by simp
  have "client_loop 0 CHR ''p'' (map served_env ?rs) =
      (map shown (zip [0..<0 + length ?rs] ?rs), if 0 + length ?rs = ITER then Some 0 else None)"
  proof (rule client_loop_served [OF toggle_0])
    show "0 + length ?rs \<le> ITER" using assms by (simp only: len add_0)
    show "\<forall>c. Letter c \<in> set ?rs \<longrightarrow> c \<noteq> nul" using queue_spec_letters by blast
  qed
  then show ?thesis unfolding Let_def len add_0 .
qed

theorem mp_client_prints_witness:
  "fst (client_loop 0 CHR ''p'' (map served_env (queue_spec 26 (map round_request [0..<6]) 0 0))) =
     map shown [(0, Refused), (1, Refused), (2, Refused), (3, Refused), (4, Refused), (5, Accepted)]"
proof -
  have n: "[0..<6] = [0, 1, 2, 3, 4, 5]"
    by (simp add: upt_rec)
  have "fst (client_loop 0 CHR ''p'' (map served_env (queue_spec 26 (map round_request [0..<6]) 0 0))) =
      map shown (zip [0..<6] (queue_spec 26 (map round_request [0..<6]) 0 0))"
    using mp_client_prints [of 6] by (simp add: Let_def ITER_def del: upt_Suc)
  also have "zip [0..<6] (queue_spec 26 (map round_request [0..<6]) 0 0) =
      [(0, Refused), (1, Refused), (2, Refused), (3, Refused), (4, Refused), (5, Accepted)]"
    unfolding n by (simp add: round_request_def)
  finally show ?thesis .
qed

text \<open>
  The remote client never recognises success. It looks for a reply that starts with a small o,
  but whatever the server answers to a producer, OK or ER, it prints Error produce; a consumer
  reply is recognised exactly when it is a letter.
\<close>

lemma remote_client_prints:
  "remote_produce_line (reply_bytes Accepted) = ''Error produce'' @ [CHR 0x0A] \<and>
   remote_produce_line (reply_bytes Refused) = ''Error produce'' @ [CHR 0x0A] \<and>
   remote_consume_line (reply_bytes Refused) = ''Error consume'' @ [CHR 0x0A] \<and>
   remote_consume_line (reply_bytes (Letter (letter n))) = ''Success consume: '' @ [letter n] @ [CHR 0x0A]"
  using letter_range [of n]
  by (simp add: remote_produce_line_def remote_consume_line_def OK_def ER_def Let_def)

text \<open>
  The threaded server's replies as its client shows them: the four status bytes of a producer give OK
  in the two bytes the client reads, and a consumer shows the letter, which the server sends in
  the second byte.
\<close>

lemma mt_client_prints:
  "mt_request_line pid CHR ''p'' (take 2 status_bytes) = ''[P] '' @ dec_int pid @ '' recv: OK'' @ [CHR 0x0A] \<and>
   mt_request_line pid CHR ''c'' [junk, letter n] = ''[C] '' @ dec_int pid @ '' recv: '' @ [letter n] @ [CHR 0x0A]"
  by (simp add: mt_request_line_def status_bytes_def)

end
