(* ===== verification/Client_Mains.thy ===== *)
theory Client_Mains
  imports Letter_Clients
begin

text \<open>
  The \<open>main\<close> functions of the three letter clients: the argument check, the connection loop and the open
  sockets. The result of \<open>inet_pton\<close> is a parameter: 1 for an address, 0 for a text that is none, -1 for an
  unknown address family.
\<close>

section \<open>One connection\<close>

record conn_try =
  ct_socket_ok :: bool
  ct_pton :: int
  ct_connect_ok :: bool
  ct_send_ok :: bool
  ct_recv :: "char list option" \<comment> \<open>\<open>None\<close>: \<open>recv\<close> returns -1; empty: the server has closed\<close>


section \<open>multiplex/client.c\<close>

record mc_start =
  mc_args :: nat
  mc_signal_ok :: bool
  mc_pton :: int

definition mc_main :: "mc_start \<Rightarrow> client_env list \<Rightarrow> (char \<times> char list) list \<times> int option" where
  "mc_main st envs =
     (if mc_args st \<noteq> 2 then ([], Some 1)
      else if \<not> mc_signal_ok st then ([], Some 1)
      else if mc_pton st = - 1 then ([], Some 1)
      else client_loop 0 CHR ''p'' envs)"

section \<open>multiplex/client-for-remote.c\<close>








section \<open>multithread/client.c\<close>






section \<open>Against the servers\<close>

definition answered_try :: "char list \<Rightarrow> conn_try" where
  "answered_try r = \<lparr>ct_socket_ok = True, ct_pton = 1, ct_connect_ok = True, ct_send_ok = True, ct_recv = Some r\<rparr>"

lemma answered_try_simps [simp]:
  "ct_socket_ok (answered_try r)" "ct_pton (answered_try r) = 1" "ct_connect_ok (answered_try r)"
  "ct_send_ok (answered_try r)" "ct_recv (answered_try r) = Some r"
  by (simp_all add: answered_try_def)

















section \<open>Property\<close>



end
