(* ===== verification/Task_State.thy ===== *)
theory Task_State
  imports Printf
begin

text \<open>
  The task-list module of \<open>lab_04/lkm-1/md.c\<close>: \<open>state_str\<close> with its 128-byte buffer and the
  arithmetic on \<open>pos\<close>, \<open>policy_str\<close>, and the walk of \<open>md_init\<close> over the circular task list.
  The bit masks and policy numbers come from kernel headers and are parameters, as is the
  successor function of the task list.
\<close>

section \<open>The state of a task as text\<close>

datatype task_flag = TASK_INTERRUPTIBLE | TASK_UNINTERRUPTIBLE | TASK_STOPPED | TASK_TRACED
  | EXIT_DEAD | EXIT_ZOMBIE | TASK_PARKED | TASK_DEAD | TASK_WAKEKILL | TASK_WAKING | TASK_NOLOAD
  | TASK_NEW | TASK_RTLOCK_WAIT | TASK_FREEZABLE | TASK_FREEZABLE_UNSAFE | TASK_FROZEN

definition flag_names :: "(task_flag \<times> char list) list" where
  "flag_names =
     [(TASK_INTERRUPTIBLE, ''TASK_INTERRUPTIBLE''), (TASK_UNINTERRUPTIBLE, ''TASK_UNINTERRUPTIBLE''),
      (TASK_STOPPED, ''__TASK_STOPPED''), (TASK_TRACED, ''__TASK_TRACED''), (EXIT_DEAD, ''EXIT_DEAD''),
      (EXIT_ZOMBIE, ''EXIT_ZOMBIE''), (TASK_PARKED, ''TASK_PARKED''), (TASK_DEAD, ''TASK_DEAD''),
      (TASK_WAKEKILL, ''TASK_WAKEKILL''), (TASK_WAKING, ''TASK_WAKING''), (TASK_NOLOAD, ''TASK_NOLOAD''),
      (TASK_NEW, ''TASK_NEW''), (TASK_RTLOCK_WAIT, ''TASK_RTLOCK_WAIT''),
      (TASK_FREEZABLE, ''TASK_FREEZABLE''), (TASK_FREEZABLE_UNSAFE, ''__TASK_FREEZABLE_UNSAFE''),
      (TASK_FROZEN, ''TASK_FROZEN'')]"

definition BUF_LEN :: nat where
  "BUF_LEN = 128"

text \<open>
  \<open>snprintf(buf + pos, size - pos, s)\<close>. As long as \<open>pos \<le> size\<close> it stores what fits and
  a NUL and returns the full length. Beyond, \<open>size - pos\<close> is a huge \<open>size_t\<close>, for which
  the kernel's \<open>snprintf\<close> is documented to warn, store nothing and return 0.
\<close>

definition snprintf_at :: "char list \<Rightarrow> nat \<Rightarrow> char list \<Rightarrow> (char list \<times> nat) may_fault" where
  "snprintf_at buf pos s =
     (if pos > BUF_LEN then Inr (buf, 0)
      else if pos = BUF_LEN then Inr (buf, length s)
      else
        let fits = take (BUF_LEN - pos - 1) s in
        rbind (mem_put buf pos (fits @ [nul])) (\<lambda>buf. Inr (buf, length s)))"

definition separator :: "char list" where
  "separator = '' | ''"

fun append_flags :: "(task_flag \<Rightarrow> u32) \<Rightarrow> u32 \<Rightarrow> (task_flag \<times> char list) list \<Rightarrow>
    char list \<Rightarrow> nat \<Rightarrow> (char list \<times> nat) may_fault" where
  "append_flags msk state [] buf pos = Inr (buf, pos)"
| "append_flags msk state ((f, name) # fs) buf pos =
     (if state AND msk f \<noteq> 0 then
        rbind (snprintf_at buf pos (name @ separator)) (\<lambda>(buf, n).
          append_flags msk state fs buf (pos + n))
      else append_flags msk state fs buf pos)"

definition state_str :: "u32 \<Rightarrow> (task_flag \<Rightarrow> u32) \<Rightarrow> char list \<Rightarrow> u32 \<Rightarrow> char list may_fault" where
  \<comment> \<open>the static buffer before and after the call; the text is the C string at its start\<close>
  "state_str running msk buf state =
     rbind (mem_put buf 0 [nul]) (\<lambda>buf.
       if state = running then mem_put buf 0 (''TASK_RUNNING'' @ [nul])
       else
         rbind (append_flags msk state flag_names buf 0) (\<lambda>(buf, pos).
           if 3 \<le> pos then mem_put buf (pos - 3) [nul] else Inr buf))"

datatype policy = SCHED_NORMAL | SCHED_FIFO | SCHED_RR | SCHED_BATCH | SCHED_IDLE | SCHED_DEADLINE | SCHED_EXT

definition policy_str :: "(policy \<Rightarrow> u32) \<Rightarrow> u32 \<Rightarrow> char list" where
  "policy_str pn p =
     (if p = pn SCHED_NORMAL then ''SCHED_NORMAL''
      else if p = pn SCHED_FIFO then ''SCHED_FIFO''
      else if p = pn SCHED_RR then ''SCHED_RR''
      else if p = pn SCHED_BATCH then ''SCHED_BATCH''
      else if p = pn SCHED_IDLE then ''SCHED_IDLE''
      else if p = pn SCHED_DEADLINE then ''SCHED_DEADLINE''
      else if p = pn SCHED_EXT then ''SCHED_EXT''
      else ''UNKNOWN'')"

section \<open>The walk over the tasks\<close>

record task_struct =
  comm :: "char list"
  pid :: int
  parent_comm :: "char list"
  parent_pid :: int
  tgid :: int
  cpu :: u32
  tstate :: u32
  tflags :: u32
  on_cpu :: int
  prio :: int
  static_prio :: int
  normal_prio :: int
  tpolicy :: u32
  migration_disabled :: u16
  migration_flags :: u16
  exit_state :: int
  exit_code :: int
  exit_signal :: int
  utime :: u64
  stime :: u64
  start_time :: u64
  sessionid :: u32
  last_switch_count :: u64
  last_switch_time :: u64
  nvcsw :: u64
  nivcsw :: u64

record md_params =
  task_running :: u32
  flag_mask :: "task_flag \<Rightarrow> u32"
  sched_num :: "policy \<Rightarrow> u32"

definition nl :: "char list" where
  "nl = [CHR 0x0A]"

definition task_text :: "md_params \<Rightarrow> char list \<Rightarrow> char list \<Rightarrow> task_struct \<Rightarrow> char list" where
  "task_text p prefix state t =
     prefix @ ''comm - '' @ comm t @ '', pid - '' @ dec_int (pid t) @ '', parent - '' @ parent_comm t @
     '', ppid - '' @ dec_int (parent_pid t) @ '', tgid - '' @ dec_int (tgid t) @ nl @
     ''    cpu - '' @ dec (unat (cpu t)) @ '', state - '' @ state @ '', flags - 0x'' @ hex (unat (tflags t)) @
     '', on_cpu - '' @ dec_int (on_cpu t) @ nl @
     ''    prio - '' @ dec_int (prio t) @ '', static_prio - '' @ dec_int (static_prio t) @
     '', normal_prio - '' @ dec_int (normal_prio t) @ '', policy - '' @ policy_str (sched_num p) (tpolicy t) @ nl @
     ''    migration_disabled - '' @ dec (unat (migration_disabled t)) @
     '', migration_flags - '' @ dec (unat (migration_flags t)) @ '', exit_state - '' @ dec_int (exit_state t) @
     '', exit_code - '' @ dec_int (exit_code t) @ '', exit_signal - '' @ dec_int (exit_signal t) @ nl @
     ''    utime - '' @ dec (unat (utime t)) @ '', stime - '' @ dec (unat (stime t)) @
     '', start_time - '' @ dec (unat (start_time t)) @ '', sessionid - '' @ dec (unat (sessionid t)) @ nl @
     ''    last_switch_count - '' @ dec (unat (last_switch_count t)) @
     '', last_switch_time - '' @ dec (unat (last_switch_time t)) @
     '', nvcsw - '' @ dec (unat (nvcsw t)) @ '', nivcsw - '' @ dec (unat (nivcsw t)) @ nl"

definition print_task ::
  "md_params \<Rightarrow> char list \<Rightarrow> char list \<Rightarrow> task_struct \<Rightarrow> (char list \<times> char list) may_fault" where
  \<comment> \<open>the static buffer afterwards and the text\<close>
  "print_task p buf prefix t =
     rbind (state_str (task_running p) (flag_mask p) buf (tstate t)) (\<lambda>buf.
     rbind (c_string buf 0) (\<lambda>state. Inr (buf, task_text p prefix state t)))"

text \<open>
  The \<open>do ... while\<close> loop over \<open>next_task\<close>, with fuel: \<open>None\<close> when the fuel is used up before
  \<open>init_task\<close> comes round again.
\<close>

fun task_loop :: "md_params \<Rightarrow> ('t \<Rightarrow> 't) \<Rightarrow> ('t \<Rightarrow> task_struct) \<Rightarrow> 't \<Rightarrow> nat \<Rightarrow>
    't \<Rightarrow> char list \<Rightarrow> (char list \<times> char list list) may_fault option" where
  "task_loop p next_task fld init_task 0 t buf = None"
| "task_loop p next_task fld init_task (Suc n) t buf =
     (case print_task p buf ''*** '' (fld t) of
        Inl f \<Rightarrow> Some (Inl f)
      | Inr (buf, line) \<Rightarrow>
          if next_task t = init_task then Some (Inr (buf, [line]))
          else
            (case task_loop p next_task fld init_task n (next_task t) buf of
               None \<Rightarrow> None
             | Some (Inl f) \<Rightarrow> Some (Inl f)
             | Some (Inr (buf, lines)) \<Rightarrow> Some (Inr (buf, line # lines))))"

definition task_md_init :: "md_params \<Rightarrow> ('t \<Rightarrow> 't) \<Rightarrow> ('t \<Rightarrow> task_struct) \<Rightarrow> 't \<Rightarrow> 't \<Rightarrow> nat \<Rightarrow>
    (char list list \<times> int) may_fault option" where
  "task_md_init p next_task fld init_task current fuel =
     (case task_loop p next_task fld init_task fuel init_task (replicate BUF_LEN nul) of
        None \<Rightarrow> None
      | Some (Inl f) \<Rightarrow> Some (Inl f)
      | Some (Inr (buf, lines)) \<Rightarrow>
          Some (rbind (print_task p buf ''*** current: '' (fld current)) (\<lambda>(buf, line).
            Inr (lines @ [line], 0))))"

section \<open>The text of a state\<close>

definition set_names :: "(task_flag \<Rightarrow> u32) \<Rightarrow> u32 \<Rightarrow> (task_flag \<times> char list) list \<Rightarrow> char list list" where
  "set_names msk state fs = map snd (filter (\<lambda>(f, name). state AND msk f \<noteq> 0) fs)"

definition written :: "char list list \<Rightarrow> char list" where
  "written names = concat (map (\<lambda>name. name @ separator) names)"

fun join_bar :: "char list list \<Rightarrow> char list" where
  "join_bar [] = []"
| "join_bar [name] = name"
| "join_bar (name # names) = name @ separator @ join_bar names"

definition state_text :: "u32 \<Rightarrow> (task_flag \<Rightarrow> u32) \<Rightarrow> u32 \<Rightarrow> char list" where
  "state_text running msk state =
     (if state = running then ''TASK_RUNNING'' else join_bar (set_names msk state flag_names))"

definition state_len :: "(task_flag \<Rightarrow> u32) \<Rightarrow> u32 \<Rightarrow> nat" where
  "state_len msk state = length (written (set_names msk state flag_names))"

text \<open>Where \<open>pos\<close> stops: lengths are added until it has passed the end of the buffer.\<close>

fun stop_pos :: "nat \<Rightarrow> nat list \<Rightarrow> nat" where
  "stop_pos pos [] = pos"
| "stop_pos pos (n # ns) = (if pos > BUF_LEN then stop_pos pos ns else stop_pos (pos + n) ns)"

lemma written_join: "names \<noteq> [] \<Longrightarrow> written names = join_bar names @ separator"
  by (induction names rule: join_bar.induct) (auto simp: written_def)

lemma set_names_Cons:
  "set_names msk state ((f, name) # fs) =
     (if state AND msk f \<noteq> 0 then name # set_names msk state fs else set_names msk state fs)"
  by (simp add: set_names_def)

lemma set_names_Nil [simp]: "set_names msk state [] = []"
  by (simp add: set_names_def)

lemma written_simps [simp]:
  "written [] = []"
  "written (name # names) = name @ separator @ written names"
  by (simp_all add: written_def)

lemma stop_pos_stays: "BUF_LEN < pos \<Longrightarrow> stop_pos pos ns = pos"
  by (induction ns) auto

text \<open>
  What the buffer holds after the text \<open>w\<close> has been appended: its first 127 characters, then a
  NUL, unless it is empty.
\<close>

definition holds_text :: "char list \<Rightarrow> char list \<Rightarrow> bool" where
  "holds_text buf w \<longleftrightarrow> length buf = BUF_LEN \<and>
     take (min (length w) (BUF_LEN - 1)) buf = take (BUF_LEN - 1) w \<and>
     buf ! min (length w) (BUF_LEN - 1) = nul"

lemma snprintf_holds:
  assumes "holds_text buf w" "length w = pos" "pos \<le> BUF_LEN"
  shows "\<exists>buf'. snprintf_at buf pos s = Inr (buf', length s) \<and> holds_text buf' (w @ s)"
proof (cases "pos = BUF_LEN")
  case True
  then show ?thesis
    using assms by (auto simp: snprintf_at_def holds_text_def)
next
  case False
  let ?fits = "take (BUF_LEN - pos - 1) s"
  let ?buf = "take pos buf @ (?fits @ [nul]) @ drop (pos + length (?fits @ [nul])) buf"
  have less: "pos < BUF_LEN" and len: "length buf = BUF_LEN"
    using False assms by (auto simp: holds_text_def)
  have "length ?fits \<le> BUF_LEN - pos - 1" by simp
  then have fit: "pos + length (?fits @ [nul]) \<le> length buf"
    using less len by (simp del: length_take)
  have w: "take pos buf = w"
    using assms less by (simp add: holds_text_def min_def split: if_splits)
  have run: "snprintf_at buf pos s = Inr (?buf, length s)"
    using less len mem_put_ok [OF fit] by (simp add: snprintf_at_def Let_def)
  have "holds_text ?buf (w @ s)"
    unfolding w using assms(2) less len fit
    by (auto simp: holds_text_def nth_append min_def)
  with run show ?thesis by blast
qed

lemma append_flags_run:
  "holds_text buf w \<Longrightarrow> length w = pos \<Longrightarrow>
     pos + length (written (set_names msk state fs)) \<le> BUF_LEN + 2 \<Longrightarrow> pos \<le> BUF_LEN \<or> set_names msk state fs = [] \<Longrightarrow>
     \<exists>buf'. append_flags msk state fs buf pos =
         Inr (buf', pos + length (written (set_names msk state fs))) \<and>
       holds_text buf' (w @ written (set_names msk state fs))"
proof (induction msk state fs buf pos arbitrary: w rule: append_flags.induct)
  case (1 msk state buf pos)
  then show ?case by simp
next
  case (2 msk state f name fs buf pos)
  show ?case
  proof (cases "state AND msk f = 0")
    case True
    then show ?thesis using 2 by (simp add: set_names_Cons)
  next
    case False
    let ?s = "name @ separator"
    have le: "pos \<le> BUF_LEN" using 2(6) False by (simp add: set_names_Cons)
    obtain buf' where b: "snprintf_at buf pos ?s = Inr (buf', length ?s)" "holds_text buf' (w @ ?s)"
      using snprintf_holds [OF 2(3,4) le] by blast
    have bound: "pos + length ?s + length (written (set_names msk state fs)) \<le> BUF_LEN + 2"
      using 2(5) False by (simp add: set_names_Cons)
    have next_le: "pos + length ?s \<le> BUF_LEN \<or> set_names msk state fs = []"
    proof (cases "set_names msk state fs")
      case (Cons a as)
      then show ?thesis using bound by (simp add: separator_def)
    qed simp
    have "length (w @ ?s) = pos + length ?s" using 2(4) by simp
    from "2.IH"(1) [OF False b(1) refl b(2) this bound next_le] show ?thesis
      using False b(1) by (simp add: set_names_Cons add.assoc)
  qed
qed




lemma holds_text_start: "length buf = BUF_LEN \<Longrightarrow> \<exists>buf'. mem_put buf 0 [nul] = Inr buf' \<and> holds_text buf' []"
  by (simp add: mem_put_def holds_text_def BUF_LEN_def)

text \<open>Cutting the buffer three before the end of the text.\<close>

lemma cut_holds:
  assumes "holds_text buf w" "3 \<le> length w" "length w \<le> BUF_LEN + 2"
  shows "\<exists>buf'. mem_put buf (length w - 3) [nul] = Inr buf' \<and> length buf' = BUF_LEN \<and>
    (nul_free (take (length w - 3) w) \<longrightarrow> cstr buf' 0 = take (length w - 3) w \<and> terminated buf' 0)"
proof -
  let ?k = "length w - 3"
  have len: "length buf = BUF_LEN" using assms(1) by (simp add: holds_text_def)
  have k: "?k < BUF_LEN" using assms(2,3) by (simp add: BUF_LEN_def)
  let ?buf = "take ?k buf @ [nul] @ drop (?k + 1) buf"
  have put: "mem_put buf ?k [nul] = Inr ?buf"
    using k len by (simp add: mem_put_def)
  have "?k \<le> min (length w) (BUF_LEN - 1)" using assms(2,3) by (simp add: BUF_LEN_def)
  then have "take ?k buf = take ?k (take (min (length w) (BUF_LEN - 1)) buf)"
    by (simp add: min_absorb1)
  also have "\<dots> = take ?k (take (BUF_LEN - 1) w)"
    using assms(1) by (simp add: holds_text_def)
  also have "\<dots> = take ?k w"
    using k by (simp add: min_def)
  finally have tk: "take ?k buf = take ?k w" .
  have "cstr ?buf 0 = take ?k w \<and> terminated ?buf 0" if "nul_free (take ?k w)"
    unfolding tk using that by (simp add: cstr_prefix terminated_def)
  with put k len show ?thesis by (auto simp: min_def)
qed

lemma join_bar_nul_free: "(\<And>n. n \<in> set ns \<Longrightarrow> nul_free n) \<Longrightarrow> nul_free (join_bar ns)"
  by (induction ns rule: join_bar.induct) (auto simp: separator_def)

lemma names_nul_free: "nul_free (join_bar (set_names msk state flag_names))"
proof (rule join_bar_nul_free)
  fix n assume "n \<in> set (set_names msk state flag_names)"
  then obtain f where "(f, n) \<in> set flag_names"
    by (auto simp: set_names_def)
  then show "nul_free n" by (auto simp: flag_names_def)
qed

lemma state_str_text:
  assumes "length buf = BUF_LEN" "state \<noteq> run \<Longrightarrow> state_len msk state \<le> BUF_LEN + 2"
  shows "\<exists>buf'. state_str run msk buf state = Inr buf' \<and> length buf' = BUF_LEN \<and>
    c_string buf' 0 = Inr (state_text run msk state)"
proof -
  obtain b0 where b0: "mem_put buf 0 [nul] = Inr b0" "holds_text b0 []"
    using holds_text_start [OF assms(1)] by blast
  then have len0: "length b0 = BUF_LEN" by (simp add: holds_text_def)
  show ?thesis
  proof (cases "state = run")
    case True
    let ?rest = "drop (length (''TASK_RUNNING'' @ [nul])) b0"
    let ?b = "''TASK_RUNNING'' @ nul # ?rest"
    have "mem_put b0 0 (''TASK_RUNNING'' @ [nul]) = Inr ?b"
      using len0 by (simp add: mem_put_def BUF_LEN_def)
    moreover have "c_string ?b 0 = Inr ''TASK_RUNNING''"
      using cstr_prefix [of "''TASK_RUNNING''" ?rest] by (simp add: c_string_def terminated_def)
    moreover have "length ?b = BUF_LEN" using len0 by (simp add: BUF_LEN_def)
    ultimately show ?thesis
      using True b0 by (simp add: state_str_def state_text_def)
  next
    case False
    let ?ns = "set_names msk state flag_names"
    obtain b1 where b1: "append_flags msk state flag_names b0 0 = Inr (b1, length (written ?ns))"
      "holds_text b1 (written ?ns)"
      using append_flags_run [OF b0(2), of 0 msk state flag_names] assms(2) [OF False]
      by (auto simp: state_len_def)
    show ?thesis
    proof (cases "?ns = []")
      case True
      then have "c_string b1 0 = Inr []" "length b1 = BUF_LEN"
        using b1(2) by (simp_all add: holds_text_def c_string_def terminated_def cstr_def BUF_LEN_def)
           (cases b1; simp)+
      then show ?thesis
        using False True b0 b1(1) by (simp add: state_str_def state_text_def)
    next
      case some: False
      then have w: "written ?ns = join_bar ?ns @ separator" by (rule written_join)
      then have tk: "take (length (written ?ns) - 3) (written ?ns) = join_bar ?ns" and "3 \<le> length (written ?ns)"
        by (simp_all add: separator_def)
      with cut_holds [OF b1(2)] assms(2) [OF False] names_nul_free [of msk state]
      obtain b2 where "mem_put b1 (length (written ?ns) - 3) [nul] = Inr b2" "length b2 = BUF_LEN"
        "cstr b2 0 = join_bar ?ns" "terminated b2 0"
        unfolding state_len_def by metis
      then show ?thesis
        using False \<open>3 \<le> length (written ?ns)\<close> b0 b1(1)
        by (simp add: state_str_def state_text_def c_string_def)
    qed
  qed
qed


section \<open>The walk\<close>

definition state_fits :: "md_params \<Rightarrow> task_struct \<Rightarrow> bool" where
  "state_fits p t \<longleftrightarrow> tstate t = task_running p \<or> state_len (flag_mask p) (tstate t) \<le> BUF_LEN + 2"

definition task_line :: "md_params \<Rightarrow> char list \<Rightarrow> task_struct \<Rightarrow> char list" where
  "task_line p prefix t = task_text p prefix (state_text (task_running p) (flag_mask p) (tstate t)) t"

lemma print_task_line:
  assumes "length buf = BUF_LEN" "state_fits p t"
  shows "\<exists>buf'. print_task p buf prefix t = Inr (buf', task_line p prefix t) \<and> length buf' = BUF_LEN"
  using state_str_text [OF assms(1), of "tstate t" "task_running p" "flag_mask p"] assms(2)
  by (auto simp: print_task_def task_line_def state_fits_def)

lemma task_loop_visits:
  assumes "\<And>t. state_fits p (fld t)"
  shows "length buf = BUF_LEN \<Longrightarrow> (next_task ^^ Suc n) t = init_task \<Longrightarrow>
     (\<forall>k. 0 < k \<and> k \<le> n \<longrightarrow> (next_task ^^ k) t \<noteq> init_task) \<Longrightarrow>
     \<exists>buf'. task_loop p next_task fld init_task (Suc n + extra) t buf =
       Some (Inr (buf', map (\<lambda>k. task_line p ''*** '' (fld ((next_task ^^ k) t))) [0..<Suc n])) \<and>
       length buf' = BUF_LEN"
proof (induction n arbitrary: t buf)
  case 0
  obtain b where "print_task p buf ''*** '' (fld t) = Inr (b, task_line p ''*** '' (fld t))" "length b = BUF_LEN"
    using print_task_line [OF "0.prems"(1) assms] by blast
  then show ?case using "0.prems"(2) by simp
next
  case (Suc n)
  obtain b where b: "print_task p buf ''*** '' (fld t) = Inr (b, task_line p ''*** '' (fld t))" "length b = BUF_LEN"
    using print_task_line [OF Suc.prems(1) assms] by blast
  have not_yet: "next_task t \<noteq> init_task"
    using Suc.prems(3) [THEN spec, of 1] by simp
  have shift: "(next_task ^^ k) (next_task t) = (next_task ^^ Suc k) t" for k
    by (simp add: funpow_swap1)
  have "(next_task ^^ Suc n) (next_task t) = init_task"
    unfolding shift by (rule Suc.prems(2))
  moreover have "\<forall>k. 0 < k \<and> k \<le> n \<longrightarrow> (next_task ^^ k) (next_task t) \<noteq> init_task"
    unfolding shift using Suc.prems(3) by auto
  ultimately obtain b' where rest: "task_loop p next_task fld init_task (Suc n + extra) (next_task t) b =
      Some (Inr (b', map (\<lambda>k. task_line p ''*** '' (fld ((next_task ^^ k) (next_task t)))) [0..<Suc n]))"
    "length b' = BUF_LEN"
    using Suc.IH [OF b(2)] by blast
  have "map (\<lambda>k. task_line p ''*** '' (fld ((next_task ^^ k) t))) [0..<Suc (Suc n)] =
      task_line p ''*** '' (fld t) #
      map (\<lambda>k. task_line p ''*** '' (fld ((next_task ^^ k) (next_task t)))) [0..<Suc n]"
    unfolding shift by (subst upt_conv_Cons) (simp_all add: map_Suc_upt [symmetric] del: upt_Suc funpow.simps)
  then show ?case
    using b not_yet rest by (simp del: upt_Suc)
qed


text \<open>Single-bit masks for examples.\<close>

definition bit_mask :: "task_flag \<Rightarrow> u32" where
  "bit_mask f = (case f of
     TASK_INTERRUPTIBLE \<Rightarrow> 1 | TASK_UNINTERRUPTIBLE \<Rightarrow> 2 | TASK_STOPPED \<Rightarrow> 4 | TASK_TRACED \<Rightarrow> 8
   | EXIT_DEAD \<Rightarrow> 16 | EXIT_ZOMBIE \<Rightarrow> 32 | TASK_PARKED \<Rightarrow> 64 | TASK_DEAD \<Rightarrow> 128 | TASK_WAKEKILL \<Rightarrow> 256
   | TASK_WAKING \<Rightarrow> 512 | TASK_NOLOAD \<Rightarrow> 1024 | TASK_NEW \<Rightarrow> 2048 | TASK_RTLOCK_WAIT \<Rightarrow> 4096
   | TASK_FREEZABLE \<Rightarrow> 8192 | TASK_FREEZABLE_UNSAFE \<Rightarrow> 16384 | TASK_FROZEN \<Rightarrow> 32768)"

section \<open>Properties\<close>



text \<open>
  C26: the walk of \<open>md_init\<close>. On a circular task list of \<open>n + 1\<close> tasks, none of whose states overflows the
  buffer, the loop ends (with that much fuel) after it has printed every task exactly once, in list order, and
  the current task is printed last; the module is loaded with 0.
\<close>

theorem md_init_prints_all:
  assumes "\<And>t. state_fits p (fld t)"
    and "(next_task ^^ Suc n) init_task = init_task"
    and "\<forall>k. 0 < k \<and> k \<le> n \<longrightarrow> (next_task ^^ k) init_task \<noteq> init_task"
  shows "task_md_init p next_task fld init_task current (Suc n + extra) =
    Some (Inr (map (\<lambda>k. task_line p ''*** '' (fld ((next_task ^^ k) init_task))) [0..<Suc n] @
      [task_line p ''*** current: '' (fld current)], 0))"
proof -
  obtain buf where loop: "task_loop p next_task fld init_task (Suc n + extra) init_task (replicate BUF_LEN nul) =
      Some (Inr (buf, map (\<lambda>k. task_line p ''*** '' (fld ((next_task ^^ k) init_task))) [0..<Suc n]))"
    and len: "length buf = BUF_LEN"
    using task_loop_visits [where p = p and fld = fld and buf = "replicate BUF_LEN nul" and
        next_task = next_task and n = n and t = init_task and init_task = init_task and extra = extra] assms
    by auto
  obtain b where "print_task p buf ''*** current: '' (fld current) = Inr (b, task_line p ''*** current: '' (fld current))"
    using print_task_line [OF len assms(1)] by blast
  then show ?thesis
    using loop by (simp add: task_md_init_def del: upt_Suc task_loop.simps)
qed

theorem md_init_prints_all_witness:
  "\<exists>p fld. task_md_init p (\<lambda>i. (i + 1) mod (3::nat)) fld 0 2 3 =
     Some (Inr (map (\<lambda>k. task_line p ''*** '' (fld k)) [0, 1, 2] @ [task_line p ''*** current: '' (fld 2)], 0))"
proof -
  define p where "p = \<lparr>task_running = 0, flag_mask = bit_mask, sched_num = (\<lambda>_. 0)\<rparr>"
  define fld where "fld = (\<lambda>i. \<lparr>comm = ''init'', pid = int i, parent_comm = ''init'', parent_pid = 0, tgid = 0,
    cpu = 0, tstate = 0, tflags = 0, on_cpu = 0, prio = 120, static_prio = 120, normal_prio = 120, tpolicy = 0,
    migration_disabled = 0, migration_flags = 0, exit_state = 0, exit_code = 0, exit_signal = 17,
    utime = 0, stime = 0, start_time = 0, sessionid = 0, last_switch_count = 0, last_switch_time = 0,
    nvcsw = 0, nivcsw = 0\<rparr>)"
  let ?next = "\<lambda>i. (i + 1) mod (3::nat)"
  have iter: "(?next ^^ 0) 0 = 0" "(?next ^^ 1) 0 = 1" "(?next ^^ 2) 0 = 2" "(?next ^^ Suc 2) 0 = 0"
    by (simp_all add: numeral_2_eq_2)
  have k: "\<forall>k. 0 < k \<and> k \<le> 2 \<longrightarrow> (?next ^^ k) 0 \<noteq> 0"
  proof (intro allI impI)
    fix k :: nat assume "0 < k \<and> k \<le> 2"
    then have "k = 1 \<or> k = 2" by auto
    then show "(?next ^^ k) 0 \<noteq> 0" using iter(2,3) by auto
  qed
  have fits: "state_fits p (fld t)" for t
    by (simp add: state_fits_def p_def fld_def)
  have up: "[0..<Suc 2] = [0, 1, 2]" by code_simp
  have "Suc 2 + 0 = (3::nat)" by simp
  with md_init_prints_all [where p = p and fld = fld and next_task = ?next and n = 2 and init_task = 0
      and current = 2 and extra = 0, OF fits iter(4) k]
  have "task_md_init p ?next fld 0 2 3 =
      Some (Inr (map (\<lambda>k. task_line p ''*** '' (fld ((?next ^^ k) 0))) [0, 1, 2] @
        [task_line p ''*** current: '' (fld 2)], 0))"
    unfolding up by (simp only:)
  then show ?thesis
    unfolding list.map iter by blast
qed

end
