(* ===== verification/C_Parse.thy ===== *)
theory C_Parse
  imports Printf
begin

text \<open>
  Input conversions of the C library on NUL-free text: \<open>strtol\<close>, the \<open>%d\<close>, \<open>%u\<close>
  and \<open>%x\<close> conversions of \<open>sscanf\<close> and \<open>fgets\<close>. Each parser returns what is left of the input.
  The lemmas say that what \<open>Printf\<close> prints is read back.
\<close>

section \<open>Character classes\<close>

definition is_space :: "char \<Rightarrow> bool" where
  "is_space c \<longleftrightarrow> c \<in> {CHR 0x20, CHR 0x09, CHR 0x0A, CHR 0x0B, CHR 0x0C, CHR 0x0D}"

definition is_digit_of :: "nat \<Rightarrow> char \<Rightarrow> bool" where
  "is_digit_of b c \<longleftrightarrow>
     (let n = (of_char c :: nat) in
      (48 \<le> n \<and> n \<le> 57 \<and> n - 48 < b) \<or> (97 \<le> n \<and> n \<le> 102 \<and> 10 + (n - 97) < b) \<or>
      (65 \<le> n \<and> n \<le> 70 \<and> 10 + (n - 65) < b))"

definition digit_value :: "char \<Rightarrow> nat" where
  "digit_value c =
     (let n = (of_char c :: nat) in if n \<le> 57 then n - 48 else if n \<le> 70 then n - 55 else n - 87)"

definition digits_value :: "nat \<Rightarrow> char list \<Rightarrow> nat" where
  "digits_value b s = foldl (\<lambda>a c. b * a + digit_value c) 0 s"

section \<open>Numbers\<close>

definition take_sign :: "char list \<Rightarrow> bool \<times> char list" where
  "take_sign s = (case s of
     [] \<Rightarrow> (False, [])
   | c # t \<Rightarrow> if c = CHR 0x2D then (True, t) else if c = CHR 0x2B then (False, t) else (False, s))"

definition drop_0x :: "nat \<Rightarrow> char list \<Rightarrow> char list" where
  "drop_0x b s = (case s of
     c # x # h # t \<Rightarrow>
       if b = 16 \<and> c = CHR ''0'' \<and> (x = CHR ''x'' \<or> x = CHR ''X'') \<and> is_digit_of 16 h then h # t else s
   | _ \<Rightarrow> s)"

definition parse_num :: "nat \<Rightarrow> char list \<Rightarrow> (bool \<times> nat \<times> char list) option" where
  \<comment> \<open>sign, magnitude and the rest; \<open>None\<close> without a digit\<close>
  "parse_num b s =
     (case take_sign (dropWhile is_space s) of
        (neg, s1) \<Rightarrow>
          let s2 = drop_0x b s1; ds = takeWhile (is_digit_of b) s2 in
          if ds = [] then None else Some (neg, digits_value b ds, dropWhile (is_digit_of b) s2))"

definition LONG_MAX :: int where
  "LONG_MAX = 9223372036854775807"

definition strtol :: "char list \<Rightarrow> int \<times> char list" where
  \<comment> \<open>base 10; the rest is the whole text when there is no number\<close>
  "strtol s =
     (case parse_num 10 s of
        None \<Rightarrow> (0, s)
      | Some (neg, n, rest) \<Rightarrow>
          (if neg then max (- LONG_MAX - 1) (- int n) else min LONG_MAX (int n), rest))"

definition to_u64 :: "bool \<Rightarrow> nat \<Rightarrow> u64" where
  \<comment> \<open>the value of an unsigned 64-bit conversion\<close>
  "to_u64 neg n = (if n \<ge> 2 ^ 64 then - 1 else if neg then - of_nat n else of_nat n)"

section \<open>Lines\<close>

fun line_upto :: "nat \<Rightarrow> char list \<Rightarrow> char list \<times> char list" where
  "line_upto 0 s = ([], s)"
| "line_upto (Suc n) [] = ([], [])"
| "line_upto (Suc n) (c # s) =
     (if c = CHR 0x0A then ([c], s) else (case line_upto n s of (l, r) \<Rightarrow> (c # l, r)))"

definition fgets :: "nat \<Rightarrow> char list \<Rightarrow> (char list \<times> char list) option" where
  \<comment> \<open>the line stored (without its NUL) and the unread rest; \<open>None\<close> at the end of the file\<close>
  "fgets lim s = (if s = [] then None else Some (line_upto (lim - 1) s))"

lemma line_upto_split: "line_upto n s = (l, r) \<Longrightarrow> s = l @ r \<and> length l \<le> n"
  by (induction n s arbitrary: l r rule: line_upto.induct) (auto split: if_splits prod.splits)

lemma line_upto_progress: "s \<noteq> [] \<Longrightarrow> 0 < n \<Longrightarrow> line_upto n s = (l, r) \<Longrightarrow> length r < length s"
  by (cases "(n, s)" rule: line_upto.cases)
     (auto split: if_splits prod.splits dest: line_upto_split)

lemma fgets_split:
  assumes "fgets lim s = Some (l, r)"
  shows "s = l @ r" "length l < lim \<or> lim = 0" "2 \<le> lim \<Longrightarrow> length r < length s"
  using assms line_upto_split [of "lim - 1" s l r] line_upto_progress [of s "lim - 1" l r]
  by (auto simp: fgets_def split: if_splits)

section \<open>Reading back what was printed\<close>

lemma digit_read: "d < 16 \<Longrightarrow> digit_value (digit d) = d"
  "d < b \<Longrightarrow> b \<le> 16 \<Longrightarrow> is_digit_of b (digit d)"
  "d < 16 \<Longrightarrow> \<not> is_space (digit d) \<and> digit d \<noteq> CHR 0x2D \<and> digit d \<noteq> CHR 0x2B"
proof -
  have 1: "\<forall>d \<in> set [0..<16]. digit_value (digit d) = d \<and> \<not> is_space (digit d) \<and>
      digit d \<noteq> CHR 0x2D \<and> digit d \<noteq> CHR 0x2B"
    unfolding is_space_def by code_simp
  show "d < 16 \<Longrightarrow> digit_value (digit d) = d"
    "d < 16 \<Longrightarrow> \<not> is_space (digit d) \<and> digit d \<noteq> CHR 0x2D \<and> digit d \<noteq> CHR 0x2B"
    using 1 by simp_all
  have "\<forall>d \<in> set [0..<16]. (of_char (digit d) :: nat) = (if d < 10 then 48 + d else 87 + d)"
    by code_simp
  then show "d < b \<Longrightarrow> b \<le> 16 \<Longrightarrow> is_digit_of b (digit d)"
    by (auto simp: is_digit_of_def Let_def)
qed

lemma num_digits: "2 \<le> b \<Longrightarrow> b \<le> 16 \<Longrightarrow> list_all (is_digit_of b) (num b n)"
proof (induction b n rule: num.induct)
  case (1 b n)
  show ?case
  proof (cases "n < b")
    case True
    then show ?thesis using 1 by (simp add: num_small digit_read)
  next
    case False
    then show ?thesis using 1 by (simp add: num_big digit_read)
  qed
qed

lemma num_hd: "2 \<le> b \<Longrightarrow> b \<le> 16 \<Longrightarrow> \<exists>d t. d < b \<and> num b n = digit d # t"
proof (induction b n rule: num.induct)
  case (1 b n)
  show ?case
  proof (cases "n < b")
    case True
    then show ?thesis by (auto simp: num_small)
  next
    case False
    then show ?thesis using 1 by (fastforce simp: num_big)
  qed
qed

lemma digits_value_snoc: "digits_value b (s @ [c]) = b * digits_value b s + digit_value c"
  by (simp add: digits_value_def)

lemma digits_value_num: "2 \<le> b \<Longrightarrow> b \<le> 16 \<Longrightarrow> digits_value b (num b n) = n"
proof (induction b n rule: num.induct)
  case (1 b n)
  show ?case
  proof (cases "n < b")
    case True
    then show ?thesis using 1 by (simp add: num_small digits_value_def digit_read)
  next
    case False
    have "n mod b < 16" using 1 by (simp add: order.strict_trans2 [of _ b])
    then show ?thesis
      using False 1 by (simp add: num_big digits_value_snoc digit_read)
  qed
qed

lemma takeWhile_all_then:
  "list_all P xs \<Longrightarrow> rest = [] \<or> \<not> P (hd rest) \<Longrightarrow> takeWhile P (xs @ rest) = xs"
  "list_all P xs \<Longrightarrow> rest = [] \<or> \<not> P (hd rest) \<Longrightarrow> dropWhile P (xs @ rest) = rest"
  by (induction xs) (cases rest; auto)+

lemma drop_0x_digit: "b = 16 \<Longrightarrow> list_all (is_digit_of 16) (d # t) \<Longrightarrow> rest = [] \<or> hd rest \<noteq> CHR ''x'' \<and> hd rest \<noteq> CHR ''X'' \<Longrightarrow>
    drop_0x b (d # t @ rest) = d # t @ rest"
proof -
  have x: "\<not> is_digit_of 16 CHR ''x''" "\<not> is_digit_of 16 CHR ''X''" by code_simp+
  show "b = 16 \<Longrightarrow> list_all (is_digit_of 16) (d # t) \<Longrightarrow> rest = [] \<or> hd rest \<noteq> CHR ''x'' \<and> hd rest \<noteq> CHR ''X'' \<Longrightarrow>
    drop_0x b (d # t @ rest) = d # t @ rest"
    using x by (cases t; cases rest) (auto simp: drop_0x_def split: list.split)
qed

lemma parse_num_num:
  assumes b: "b = 10 \<or> b = 16" and rest: "rest = [] \<or> \<not> is_digit_of b (hd rest)"
    and x: "rest = [] \<or> hd rest \<noteq> CHR ''x'' \<and> hd rest \<noteq> CHR ''X''"
    and sp: "list_all is_space sp"
  shows "parse_num b (sp @ num b n @ rest) = Some (False, n, rest)"
proof -
  have b2: "2 \<le> b" "b \<le> 16" using b by auto
  obtain d t where dt: "d < b" "num b n = digit d # t"
    using num_hd [OF b2] by blast
  have d16: "d < 16" using dt b2 by simp
  have ws: "dropWhile is_space (sp @ num b n @ rest) = num b n @ rest"
    using takeWhile_all_then(2) [OF sp, of "num b n @ rest"] digit_read(3) [OF d16] dt(2) by simp
  have sg: "take_sign (num b n @ rest) = (False, num b n @ rest)"
    using digit_read(3) [OF d16] dt(2) by (simp add: take_sign_def)
  have x0: "drop_0x b (num b n @ rest) = num b n @ rest"
  proof (cases "b = 16")
    case True
    then show ?thesis
      using drop_0x_digit [OF True, of "digit d" t rest] num_digits [OF b2, of n] dt(2) x by simp
  next
    case False
    then show ?thesis by (auto simp: drop_0x_def split: list.split)
  qed
  show ?thesis
    unfolding parse_num_def ws sg Let_def
    by (simp add: x0 takeWhile_all_then [OF num_digits [OF b2] rest] digits_value_num [OF b2])
qed

lemma strtol_dec: "strtol (dec n) = (min LONG_MAX (int n), [])"
  using parse_num_num [of 10 "[]" "[]" n] by (simp add: strtol_def)

end
