(* ===== verification/Proc_Info.thy ===== *)
theory Proc_Info
  imports C_Parse
begin

text \<open>
  The process inspector of \<open>lab_03/proc-1/main.c\<close>, the text dumps. The process file system is
  the record \<open>proc_world\<close>: what the files, directories and links contain, and which files can be
  created. Each \<open>print_\<close> function returns the files it writes with their contents.
  The constants \<open>ru_...\<close> are the bytes of the Russian texts.
\<close>

section \<open>The world and the helpers\<close>

record proc_world =
  proc_file :: "char list \<Rightarrow> char list option"
  proc_dir :: "char list \<Rightarrow> char list list option"
  proc_link :: "char list \<Rightarrow> char list option"
  can_create :: "char list \<Rightarrow> bool"

type_synonym files = "(char list \<times> char list) list"

definition BUF_SIZE :: nat where
  "BUF_SIZE = 4096"

definition snprintf_n :: "nat \<Rightarrow> char list \<Rightarrow> char list" where
  "snprintf_n n s = take (n - 1) s"

definition eol :: "char list" where
  "eol = [CHR 0x0A]"

definition proc_path :: "int \<Rightarrow> char list \<Rightarrow> char list" where
  "proc_path pid name = snprintf_n 256 (''/proc/'' @ dec_int pid @ ''/'' @ name)"

definition create_file_in_dir :: "proc_world \<Rightarrow> char list \<Rightarrow> char list \<Rightarrow> char list option" where
  "create_file_in_dir w dirpath filename =
     (let path = snprintf_n 512 (dirpath @ ''/'' @ filename) in
      if can_create w path then Some path else None)"

text \<open>Open the input, create the output, write what the rest of the function makes of the input.\<close>

definition dump_file ::
  "proc_world \<Rightarrow> int \<Rightarrow> char list \<Rightarrow> char list \<Rightarrow> char list \<Rightarrow> (char list \<Rightarrow> char list) \<Rightarrow> files" where
  "dump_file w pid name dirpath outname body =
     (case proc_file w (proc_path pid name) of
        None \<Rightarrow> []
      | Some content \<Rightarrow>
          (case create_file_in_dir w dirpath outname of
             None \<Rightarrow> []
           | Some out \<Rightarrow> [(out, body content)]))"

section \<open>Environment, command line, io, comm\<close>

definition nul_to :: "char \<Rightarrow> char \<Rightarrow> char" where
  "nul_to d c = (if c = nul then d else c)"

function environ_chunks :: "char list \<Rightarrow> char list" where
  \<comment> \<open>\<open>fread\<close> of at most 4096 bytes at a time\<close>
  "environ_chunks s =
     (if s = [] then []
      else map (nul_to CHR 0x0A) (take BUF_SIZE s) @ environ_chunks (drop BUF_SIZE s))"
  by auto
termination by (relation "measure length") (auto simp: BUF_SIZE_def)

declare environ_chunks.simps [simp del]

definition print_environ :: "proc_world \<Rightarrow> int \<Rightarrow> char list \<Rightarrow> files" where
  "print_environ w pid dirpath =
     dump_file w pid ''environ'' dirpath ''environ.txt''
       (\<lambda>s. ''--- environ ---'' @ eol @ environ_chunks s @ eol)"

definition cmdline_text :: "char list \<Rightarrow> char list" where
  \<comment> \<open>the text of \<open>buf\<close> after one \<open>fread\<close> of at most 4095 bytes\<close>
  "cmdline_text s = map (nul_to CHR 0x20) (take (BUF_SIZE - 1) s)"

definition print_cmdline :: "proc_world \<Rightarrow> int \<Rightarrow> char list \<Rightarrow> files" where
  "print_cmdline w pid dirpath =
     dump_file w pid ''cmdline'' dirpath ''cmdline.txt''
       (\<lambda>s. ''--- cmdline ---'' @ eol @ (if s = [] then [] else cmdline_text s @ eol))"

abbreviation text_of :: "char list \<Rightarrow> char list" where
  \<comment> \<open>what \<open>%s\<close> prints of the stored line\<close>
  "text_of l \<equiv> takeWhile (\<lambda>c. c \<noteq> nul) l"

function copy_lines :: "char list \<Rightarrow> char list" where
  "copy_lines s = (case fgets BUF_SIZE s of None \<Rightarrow> [] | Some (l, r) \<Rightarrow> text_of l @ copy_lines r)"
  by auto
termination
  by (relation "measure length") (auto dest: fgets_split(3) simp: BUF_SIZE_def)

declare copy_lines.simps [simp del]

definition print_io :: "proc_world \<Rightarrow> int \<Rightarrow> char list \<Rightarrow> files" where
  "print_io w pid dirpath =
     dump_file w pid ''io'' dirpath ''io.txt'' (\<lambda>s. ''--- io ---'' @ eol @ copy_lines s)"

definition print_comm :: "proc_world \<Rightarrow> int \<Rightarrow> char list \<Rightarrow> files" where
  "print_comm w pid dirpath =
     dump_file w pid ''comm'' dirpath ''comm.txt''
       (\<lambda>s. ''--- comm ---'' @ eol @ (case fgets 256 s of None \<Rightarrow> [] | Some (l, _) \<Rightarrow> text_of l))"

section \<open>Directories and links\<close>

definition real_entries :: "char list list \<Rightarrow> char list list" where
  "real_entries names = filter (\<lambda>n. n \<noteq> ''.'' \<and> n \<noteq> ''..'') names"

definition fd_line :: "proc_world \<Rightarrow> char list \<Rightarrow> char list \<Rightarrow> char list" where
  "fd_line w path name =
     (case proc_link w (snprintf_n 512 (path @ ''/'' @ name)) of
        None \<Rightarrow> []
      | Some target \<Rightarrow> ''fd '' @ name @ '' -> '' @ text_of (take 255 target) @ eol)"

definition print_fd :: "proc_world \<Rightarrow> int \<Rightarrow> char list \<Rightarrow> files" where
  "print_fd w pid dirpath =
     (let path = proc_path pid ''fd'' in
      case proc_dir w path of
        None \<Rightarrow> []
      | Some names \<Rightarrow>
          (case create_file_in_dir w dirpath ''fd.txt'' of
             None \<Rightarrow> []
           | Some out \<Rightarrow> [(out, ''--- fd ---'' @ eol @ concat (map (fd_line w path) (real_entries names)))]))"

definition print_task :: "proc_world \<Rightarrow> int \<Rightarrow> char list \<Rightarrow> files" where
  "print_task w pid dirpath =
     (case proc_dir w (proc_path pid ''task'') of
        None \<Rightarrow> []
      | Some names \<Rightarrow>
          (case create_file_in_dir w dirpath ''task.txt'' of
             None \<Rightarrow> []
           | Some out \<Rightarrow>
               [(out, ''--- task ---'' @ eol @ concat (map (\<lambda>n. ''TID: '' @ n @ eol) (real_entries names)))]))"

definition ru_no_access :: "char list" where
  \<comment> \<open>UTF-8\<close>
  "ru_no_access =
     [CHR 0xD0, CHR 0x9D, CHR 0xD0, CHR 0xB5, CHR 0xD1, CHR 0x82, CHR 0x20, CHR 0xD0, CHR 0xB4,
      CHR 0xD0, CHR 0xBE, CHR 0xD1, CHR 0x81, CHR 0xD1, CHR 0x82, CHR 0xD1, CHR 0x83, CHR 0xD0,
      CHR 0xBF, CHR 0xD0, CHR 0xB0, CHR 0x20, CHR 0xD0, CHR 0xB8, CHR 0xD0, CHR 0xBB, CHR 0xD0,
      CHR 0xB8, CHR 0x20, CHR 0xD1, CHR 0x83, CHR 0xD0, CHR 0xB4, CHR 0xD0, CHR 0xB0, CHR 0xD0,
      CHR 0xBB, CHR 0xD0, CHR 0xB5, CHR 0xD0, CHR 0xBD, CHR 0xD0, CHR 0xBE, CHR 0x2E]"

definition print_symlink :: "proc_world \<Rightarrow> int \<Rightarrow> char list \<Rightarrow> char list \<Rightarrow> files" where
  "print_symlink w pid name dirpath =
     (case create_file_in_dir w dirpath (snprintf_n 64 (name @ ''.txt'')) of
        None \<Rightarrow> []
      | Some out \<Rightarrow>
          [(out, ''--- '' @ name @ '' ---'' @ eol @
             (case proc_link w (proc_path pid name) of
                Some target \<Rightarrow> name @ '' -> '' @ text_of (take 511 target) @ eol
              | None \<Rightarrow> ru_no_access @ eol))])"

section \<open>The status line\<close>

fun first_index :: "char \<Rightarrow> char list \<Rightarrow> nat option" where
  "first_index c [] = None"
| "first_index c (x # xs) = (if x = c then Some 0 else map_option Suc (first_index c xs))"

definition last_index :: "char \<Rightarrow> char list \<Rightarrow> nat option" where
  "last_index c s = map_option (\<lambda>k. length s - 1 - k) (first_index c (rev s))"

datatype scan_dir = Skip_char | Skip_num | Take_num

fun sscanf :: "scan_dir list \<Rightarrow> char list \<Rightarrow> u64 list" where
  "sscanf [] s = []"
| "sscanf (Skip_char # ds) s = (case s of [] \<Rightarrow> [] | _ # t \<Rightarrow> sscanf ds t)"
| "sscanf (Skip_num # ds) s = (case parse_num 10 s of None \<Rightarrow> [] | Some (_, _, r) \<Rightarrow> sscanf ds r)"
| "sscanf (Take_num # ds) s =
     (case parse_num 10 s of None \<Rightarrow> [] | Some (neg, n, r) \<Rightarrow> to_u64 neg n # sscanf ds r)"

definition stat_format :: "scan_dir list" where
  "stat_format =
     [Skip_char, Skip_num, Skip_num, Skip_num, Skip_num, Skip_num, Skip_num, Skip_num, Skip_num, Skip_num,
      Skip_num, Skip_num, Skip_num, Skip_num, Skip_num, Skip_num, Skip_num, Skip_num, Skip_num, Skip_num,
      Take_num, Skip_num, Skip_num, Skip_num, Skip_num, Take_num]"

definition ru_state_header :: "char list" where
  \<comment> \<open>UTF-8\<close>
  "ru_state_header =
     [CHR 0x2D, CHR 0x2D, CHR 0x2D, CHR 0x20, CHR 0xD0, CHR 0xA1, CHR 0xD0, CHR 0xBE, CHR 0xD1,
      CHR 0x81, CHR 0xD1, CHR 0x82, CHR 0xD0, CHR 0xBE, CHR 0xD1, CHR 0x8F, CHR 0xD0, CHR 0xBD,
      CHR 0xD0, CHR 0xB8, CHR 0xD0, CHR 0xB5, CHR 0x20, CHR 0x2D, CHR 0x2D, CHR 0x2D]"

definition ru_state :: "char list" where
  \<comment> \<open>UTF-8\<close>
  "ru_state =
     [CHR 0xD0, CHR 0xA1, CHR 0xD0, CHR 0xBE, CHR 0xD1, CHR 0x81, CHR 0xD1, CHR 0x82, CHR 0xD0,
      CHR 0xBE, CHR 0xD1, CHR 0x8F, CHR 0xD0, CHR 0xBD, CHR 0xD0, CHR 0xB8, CHR 0xD0, CHR 0xB5,
      CHR 0x20, CHR 0xD0, CHR 0xBF, CHR 0xD1, CHR 0x80, CHR 0xD0, CHR 0xBE, CHR 0xD1, CHR 0x86,
      CHR 0xD0, CHR 0xB5, CHR 0xD1, CHR 0x81, CHR 0xD1, CHR 0x81, CHR 0xD0, CHR 0xB0, CHR 0x3A,
      CHR 0x20]"

definition stat_extract :: "char list \<Rightarrow> u64 \<times> u64 \<Rightarrow> (char list \<times> u64 \<times> u64) may_fault" where
  \<comment> \<open>\<open>text\<close> is the line read; the text written and the two numbers afterwards\<close>
  "stat_extract text old =
     (case last_index CHR '')'' text of
        None \<Rightarrow> Inr ([], old)
      | Some rparen \<Rightarrow>
          rbind (c_string (text @ [nul]) (rparen + 2)) (\<lambda>p.
            (case p of
               [] \<Rightarrow> Inl Uninitialised
             | state # _ \<Rightarrow>
                 let vals = sscanf stat_format p in
                 Inr (ru_state_header @ eol @ ru_state @ [state] @ eol,
                      if length vals = 0 then old
                      else if length vals = 1 then (vals ! 0, snd old) else (vals ! 0, vals ! 1)))))"

definition print_stat_and_extract ::
  "proc_world \<Rightarrow> int \<Rightarrow> char list \<Rightarrow> u64 \<times> u64 \<Rightarrow> (files \<times> u64 \<times> u64) may_fault" where
  "print_stat_and_extract w pid dirpath old =
     (case proc_file w (proc_path pid ''stat'') of
        None \<Rightarrow> Inr ([], old)
      | Some content \<Rightarrow>
          (case create_file_in_dir w dirpath ''stat.txt'' of
             None \<Rightarrow> Inr ([], old)
           | Some out \<Rightarrow>
               (case fgets BUF_SIZE content of
                  None \<Rightarrow> Inr ([(out, [])], old)
                | Some (l, _) \<Rightarrow>
                    rbind (stat_extract (text_of l) old) (\<lambda>(txt, vals). Inr ([(out, txt)], vals)))))"

definition stat_labels :: "char list list" where
  "stat_labels =
     [''1) pid'', ''2) comm'', ''3) state'', ''4) ppid'', ''5) pgrp'', ''6) session'',
      ''7) tty_nr'', ''8) tpgid'', ''9) flags'', ''10) minflt'', ''11) cminflt'', ''12) majflt'',
      ''13) cmajflt'', ''14) utime'', ''15) stime'', ''16) cutime'', ''17) cstime'',
      ''18) priority'', ''19) nice'', ''20) num_threads'', ''21) itrealvalue'', ''22) starttime'',
      ''23) vsize'', ''24) rss'', ''25) rsslim'', ''26) startcode'', ''27) endcode'',
      ''28) startstack'', ''29) kstkesp'', ''30) kstkeip'', ''31) signal'', ''32) blocked'',
      ''33) sigignore'', ''34) sigcatch'', ''35) wchan'', ''36) nswap'', ''37) cnswap'',
      ''38) exit_signal'', ''39) processor'', ''40) rt_priority'', ''41) policy'',
      ''42) delayacct_blkio_ticks'', ''43) guest_time'', ''44) cguest_time'', ''45) start_data'',
      ''46) end_data'', ''47) start_brk'', ''48) arg_start'', ''49) arg_end'', ''50) env_start'',
      ''51) env_end'', ''52) exit_code'']"

definition pad25 :: "char list \<Rightarrow> char list" where
  \<comment> \<open>\<open>%-25s\<close>\<close>
  "pad25 s = s @ replicate (25 - length s) CHR 0x20"

definition stat_delim :: "char \<Rightarrow> bool" where
  "stat_delim c \<longleftrightarrow> c = CHR 0x20 \<or> c = CHR 0x0A"

function strtok_all :: "char list \<Rightarrow> char list list" where
  "strtok_all s =
     (let s1 = dropWhile stat_delim s in
      if s1 = [] then []
      else takeWhile (\<lambda>c. \<not> stat_delim c) s1 # strtok_all (dropWhile (\<lambda>c. \<not> stat_delim c) s1))"
  by auto
termination
proof (relation "measure length")
  fix s s1 assume s1: "s1 = dropWhile stat_delim s" "s1 \<noteq> []"
  then have "\<not> stat_delim (hd s1)" by (simp add: hd_dropWhile)
  then have "length (dropWhile (\<lambda>c. \<not> stat_delim c) s1) < length s1"
    using s1(2) by (cases s1) (auto simp: le_imp_less_Suc length_dropWhile_le)
  also have "\<dots> \<le> length s" using s1(1) by (simp add: length_dropWhile_le)
  finally show "(dropWhile (\<lambda>c. \<not> stat_delim c) s1, s) \<in> measure length" by simp
qed simp

declare strtok_all.simps [simp del]

definition hex_field :: "nat \<Rightarrow> bool" where
  "hex_field n \<longleftrightarrow> 26 \<le> n \<and> n \<le> 30 \<or> 45 \<le> n \<and> n \<le> 51"

definition strtoull :: "char list \<Rightarrow> u64" where
  "strtoull s = (case parse_num 10 s of None \<Rightarrow> 0 | Some (neg, n, _) \<Rightarrow> to_u64 neg n)"

fun token_lines :: "nat \<Rightarrow> char list list \<Rightarrow> char list list" where
  \<comment> \<open>the \<open>while\<close> loop over the tokens, from index \<open>idx\<close>\<close>
  "token_lines idx [] = []"
| "token_lines idx (token # tokens) =
     (if idx < 52 then
        (pad25 (stat_labels ! idx) @ '' : '' @
          (if hex_field (idx + 1) then ''0x'' @ hex (unat (strtoull token)) else token) @ eol)
        # token_lines (idx + 1) tokens
      else [])"

definition full_stat_text :: "char list \<Rightarrow> char list list may_fault" where
  "full_stat_text text =
     (case (first_index CHR ''('' text, last_index CHR '')'' text) of
        (Some lp, Some rp) \<Rightarrow>
          let buf = (text @ [nul])[lp := nul, rp := nul] in
          rbind (c_string buf 0) (\<lambda>pid_txt.
          rbind (c_string buf (lp + 1)) (\<lambda>name.
          rbind (c_string buf (rp + 2)) (\<lambda>rest.
            (case parse_num 10 pid_txt of
               None \<Rightarrow> Inl Uninitialised
             | Some (neg, n, _) \<Rightarrow>
                 Inr ((pad25 (stat_labels ! 0) @ '' : '' @
                         dec_int (sint (of_int (if neg then - int n else int n) :: u32)) @ eol)
                      # (pad25 (stat_labels ! 1) @ '' : '' @ name @ eol)
                      # token_lines 2 (strtok_all rest))))))
      | _ \<Rightarrow> Inr [])"

definition print_full_stat :: "proc_world \<Rightarrow> int \<Rightarrow> char list \<Rightarrow> files may_fault" where
  "print_full_stat w pid dirpath =
     (case proc_file w (proc_path pid ''stat'') of
        None \<Rightarrow> Inr []
      | Some content \<Rightarrow>
          (case create_file_in_dir w dirpath ''stat_full.txt'' of
             None \<Rightarrow> Inr []
           | Some out \<Rightarrow>
               rbind (case fgets BUF_SIZE content of None \<Rightarrow> Inr [] | Some (l, _) \<Rightarrow> full_stat_text (text_of l))
                 (\<lambda>lines. Inr [(out, ''--- stat ---'' @ eol @ eol @ concat lines)])))"

end
