(* ===== verification/Proc_Stat.thy ===== *)
theory Proc_Stat
  imports Proc_Info
begin

text \<open>
  What the dumps of the process inspector contain: the copies are complete whatever the buffer
  size, and a status line in the kernel's format is taken apart correctly, also when the
  command name contains spaces and parentheses.
\<close>

section \<open>Copies\<close>

lemma environ_chunks_map: "environ_chunks s = map (nul_to CHR 0x0A) s"
proof (induction s rule: environ_chunks.induct)
  case (1 s)
  show ?case
  proof (cases "s = []")
    case True
    then show ?thesis by (simp add: environ_chunks.simps)
  next
    case False
    with 1 have "environ_chunks s = map (nul_to CHR 0x0A) (take BUF_SIZE s) @ map (nul_to CHR 0x0A) (drop BUF_SIZE s)"
      by (simp add: environ_chunks.simps [of s])
    then show ?thesis by (simp flip: map_append)
  qed
qed

lemma text_of_nul_free: "nul_free s \<Longrightarrow> text_of s = s"
  by (induction s) auto

lemma copy_lines_id: "nul_free s \<Longrightarrow> copy_lines s = s"
proof (induction s rule: copy_lines.induct)
  case (1 s)
  show ?case
  proof (cases "fgets BUF_SIZE s")
    case None
    then show ?thesis by (simp add: copy_lines.simps fgets_def split: if_splits)
  next
    case (Some lr)
    obtain l r where lr: "lr = (l, r)" by fastforce
    then have s: "s = l @ r" using Some fgets_split(1) by auto
    then have "copy_lines r = r" "text_of l = l"
      using 1 Some lr by (auto simp: text_of_nul_free)
    then show ?thesis using Some lr s by (simp add: copy_lines.simps)
  qed
qed

section \<open>Searching\<close>

lemma first_index_at: "c \<notin> set xs \<Longrightarrow> first_index c (xs @ c # ys) = Some (length xs)"
  by (induction xs) auto

lemma last_index_at: "c \<notin> set ys \<Longrightarrow> last_index c (xs @ c # ys) = Some (length xs)"
  using first_index_at [of c "rev ys" "rev xs"] by (simp add: last_index_def)

section \<open>Numbers in the status line\<close>

definition spaced :: "int list \<Rightarrow> char list" where
  "spaced is = concat (map (\<lambda>i. '' '' @ dec_int i) is)"

lemma spaced_simps [simp]:
  "spaced [] = []"
  "spaced (i # is) = CHR 0x20 # dec_int i @ spaced is"
  by (simp_all add: spaced_def)

definition not_digit_next :: "char list \<Rightarrow> bool" where
  "not_digit_next rest \<longleftrightarrow> rest = [] \<or> hd rest = CHR 0x20 \<or> hd rest = CHR 0x0A"

lemma not_digit_nextD:
  "not_digit_next rest \<Longrightarrow> rest = [] \<or> \<not> is_digit_of 10 (hd rest)"
  "not_digit_next rest \<Longrightarrow> rest = [] \<or> hd rest \<noteq> CHR ''x'' \<and> hd rest \<noteq> CHR ''X''"
proof -
  have "\<not> is_digit_of 10 CHR 0x20" "\<not> is_digit_of 10 CHR 0x0A" by code_simp+
  then show "not_digit_next rest \<Longrightarrow> rest = [] \<or> \<not> is_digit_of 10 (hd rest)"
    "not_digit_next rest \<Longrightarrow> rest = [] \<or> hd rest \<noteq> CHR ''x'' \<and> hd rest \<noteq> CHR ''X''"
    by (auto simp: not_digit_next_def)
qed

lemma not_digit_next_spaced: "not_digit_next (spaced is @ eol)"
  by (cases "is") (simp_all add: not_digit_next_def eol_def)

lemma parse_num_dec_int:
  assumes "not_digit_next rest"
  shows "parse_num 10 (CHR 0x20 # dec_int i @ rest) = Some (i < 0, nat \<bar>i\<bar>, rest)"
    "parse_num 10 (dec_int i @ rest) = Some (i < 0, nat \<bar>i\<bar>, rest)"
proof -
  note nd = not_digit_nextD [OF assms]
  have sp: "parse_num 10 (CHR 0x20 # s) = parse_num 10 s" for s
    by (simp add: parse_num_def is_space_def)
  have "parse_num 10 (dec_int i @ rest) = Some (i < 0, nat \<bar>i\<bar>, rest)"
  proof (cases "i < 0")
    case False
    then show ?thesis
      using parse_num_num [of 10 rest "[]" "nat i"] nd by (simp add: dec_int_def)
  next
    case True
    let ?n = "nat (- i)"
    have "dropWhile is_space (dec_int i @ rest) = dec_int i @ rest"
      using True by (simp add: dec_int_def is_space_def)
    moreover have "take_sign (dec_int i @ rest) = (True, dec ?n @ rest)"
      using True by (simp add: dec_int_def take_sign_def)
    moreover have "drop_0x 10 s = s" for s
      by (auto simp: drop_0x_def split: list.split)
    ultimately show ?thesis
      using True nd(1) num_digits [of 10 ?n]
      by (simp add: parse_num_def Let_def takeWhile_all_then digits_value_num)
  qed
  then show "parse_num 10 (dec_int i @ rest) = Some (i < 0, nat \<bar>i\<bar>, rest)"
    "parse_num 10 (CHR 0x20 # dec_int i @ rest) = Some (i < 0, nat \<bar>i\<bar>, rest)"
    by (simp_all add: sp)
qed

definition taken_fields :: "scan_dir list \<Rightarrow> int list \<Rightarrow> u64 list" where
  "taken_fields ds is = map (\<lambda>(d, i). to_u64 (i < 0) (nat \<bar>i\<bar>)) (filter (\<lambda>(d, i). d = Take_num) (zip ds is))"

lemma sscanf_spaced:
  "Skip_char \<notin> set ds \<Longrightarrow> length ds \<le> length is \<Longrightarrow> sscanf ds (spaced is @ eol) = taken_fields ds is"
proof (induction ds arbitrary: "is")
  case Nil
  then show ?case by (simp add: taken_fields_def)
next
  case (Cons d ds)
  then obtain i "is'" where is_eq: "is = i # is'" by (cases "is") auto
  note parse = parse_num_dec_int(1) [OF not_digit_next_spaced, of i is']
  show ?case
    using Cons.IH [of is'] Cons.prems parse
    by (cases d) (auto simp: is_eq taken_fields_def)
qed

lemma taken_skip: "n \<le> length is \<Longrightarrow> taken_fields (replicate n Skip_num @ ds) is = taken_fields ds (drop n is)"
proof (induction n arbitrary: "is")
  case 0
  then show ?case by simp
next
  case (Suc n)
  then obtain i "is'" where "is = i # is'" by (cases "is") auto
  with Suc show ?case by (simp add: taken_fields_def)
qed

lemma taken_take:
  "n < length is \<Longrightarrow>
     taken_fields (Take_num # ds) (drop n is) = to_u64 (is ! n < 0) (nat \<bar>is ! n\<bar>) # taken_fields ds (drop (Suc n) is)"
  by (simp add: taken_fields_def Cons_nth_drop_Suc [symmetric])

text \<open>The line the kernel writes: process id, name in parentheses, state, numbers.\<close>

definition stat_line :: "int \<Rightarrow> char list \<Rightarrow> char \<Rightarrow> int list \<Rightarrow> char list" where
  "stat_line pid name st is = dec_int pid @ '' ('' @ name @ '') '' @ [st] @ spaced is @ eol"

lemma paren_not_in_dec: "CHR ''('' \<notin> set (dec_int i)" "CHR '')'' \<notin> set (dec_int i)"
proof -
  have d: "\<not> is_digit_of 10 CHR ''(''" "\<not> is_digit_of 10 CHR '')''" by code_simp+
  then have "CHR ''('' \<notin> set (dec n)" "CHR '')'' \<notin> set (dec n)" for n
    using num_digits [of 10 n] by (auto simp: list_all_iff)
  then show "CHR ''('' \<notin> set (dec_int i)" "CHR '')'' \<notin> set (dec_int i)"
    by (auto simp: dec_int_def)
qed

lemma paren_not_in_spaced: "CHR '')'' \<notin> set (spaced is @ eol)"
  by (induction "is") (auto simp: eol_def paren_not_in_dec)

lemma spaced_nul_free [simp]: "nul_free (spaced is)" "nul_free eol"
  by (induction "is") (auto simp: eol_def)

lemma stat_line_rparen:
  assumes "st \<noteq> CHR '')''"
  shows "last_index CHR '')'' (stat_line pid name st is) = Some (length (dec_int pid) + 2 + length name)"
proof -
  have "stat_line pid name st is = (dec_int pid @ '' ('' @ name) @ CHR '')'' # (CHR 0x20 # st # spaced is @ eol)"
    by (simp add: stat_line_def)
  moreover have "CHR '')'' \<notin> set (CHR 0x20 # st # spaced is @ eol)"
    using assms paren_not_in_spaced by auto
  ultimately show ?thesis
    by (simp add: last_index_at del: append_assoc)
qed

lemma stat_line_nul_free: "nul_free name \<Longrightarrow> st \<noteq> nul \<Longrightarrow> nul_free (stat_line pid name st is)"
  by (simp add: stat_line_def)

lemma stat_extract_line:
  assumes "st \<noteq> CHR '')''" "st \<noteq> nul" "length is \<ge> 25"
  shows "stat_extract (stat_line pid name st is) old =
    Inr (ru_state_header @ eol @ ru_state @ [st] @ eol,
      to_u64 (is ! 19 < 0) (nat \<bar>is ! 19\<bar>), to_u64 (is ! 24 < 0) (nat \<bar>is ! 24\<bar>))"
proof -
  let ?k = "length (dec_int pid) + 2 + length name"
  have "stat_line pid name st is @ [nul] =
      (dec_int pid @ '' ('' @ name @ '') '') @ (st # spaced is @ eol) @ nul # []"
    by (simp add: stat_line_def)
  moreover have "nul_free (st # spaced is @ eol)" using assms(2) by simp
  ultimately have p: "c_string (stat_line pid name st is @ [nul]) (?k + 2) = Inr (st # spaced is @ eol)"
    using cstr_at [of "st # spaced is @ eol" "dec_int pid @ '' ('' @ name @ '') ''" "?k + 2" "[]"]
      terminated_at [of "dec_int pid @ '' ('' @ name @ '') ''" "?k + 2" "st # spaced is @ eol" "[]"]
    by (simp add: c_string_def)
  let ?ds = "replicate 19 Skip_num @ [Take_num] @ replicate 4 Skip_num @ [Take_num]"
  have fmt: "stat_format = Skip_char # ?ds"
    by (simp add: stat_format_def numeral_eq_Suc)
  have "sscanf stat_format (st # spaced is @ eol) = taken_fields ?ds is"
    unfolding fmt using assms(3) sscanf_spaced [of ?ds "is"] by simp
  also have "\<dots> = [to_u64 (is ! 19 < 0) (nat \<bar>is ! 19\<bar>), to_u64 (is ! 24 < 0) (nat \<bar>is ! 24\<bar>)]"
    using assms(3) taken_take [of 19 "is"] taken_take [of 24 "is"] taken_skip [of 4 "drop 20 is"]
    by (simp add: taken_skip) (simp add: taken_fields_def)
  finally show ?thesis
    using stat_line_rparen [OF assms(1)] p by (simp add: stat_extract_def Let_def)
qed


section \<open>Tokens\<close>

lemma strtok_Nil [simp]: "strtok_all [] = []"
  by (simp add: strtok_all.simps)

lemma strtok_delim: "stat_delim d \<Longrightarrow> strtok_all (d # s) = strtok_all s"
  by (simp add: strtok_all.simps [of "d # s"] strtok_all.simps [of s])

lemma strtok_word:
  assumes "w \<noteq> []" "list_all (\<lambda>c. \<not> stat_delim c) w" "s = [] \<or> stat_delim (hd s)"
  shows "strtok_all (w @ s) = w # strtok_all s"
proof -
  have "dropWhile stat_delim (w @ s) = w @ s"
    using assms(1,2) by (cases w) auto
  moreover have "takeWhile (\<lambda>c. \<not> stat_delim c) (w @ s) = w" "dropWhile (\<lambda>c. \<not> stat_delim c) (w @ s) = s"
    using takeWhile_all_then [OF assms(2)] assms(3) by auto
  ultimately show ?thesis
    using assms(1) by (simp add: strtok_all.simps [of "w @ s"] Let_def)
qed

lemma dec_int_word: "dec_int i \<noteq> []" "list_all (\<lambda>c. \<not> stat_delim c) (dec_int i)"
proof -
  show "dec_int i \<noteq> []" by (simp add: dec_int_def)
  have "\<not> is_digit_of 10 CHR 0x20" "\<not> is_digit_of 10 CHR 0x0A" by code_simp+
  then have "list_all (\<lambda>c. \<not> stat_delim c) (dec n)" for n
    using num_digits [of 10 n] by (auto simp: list_all_iff stat_delim_def)
  then show "list_all (\<lambda>c. \<not> stat_delim c) (dec_int i)"
    by (simp add: dec_int_def stat_delim_def)
qed

lemma strtok_spaced: "strtok_all (spaced is @ eol) = map dec_int is"
proof (induction "is")
  case Nil
  then show ?case by (simp add: eol_def strtok_delim stat_delim_def)
next
  case (Cons i "is")
  have "stat_delim (hd (spaced is @ eol))"
    by (cases "is") (simp_all add: eol_def stat_delim_def)
  then show ?case
    using Cons strtok_word [OF dec_int_word, of "spaced is @ eol" i]
    by (simp add: strtok_delim stat_delim_def)
qed

section \<open>The labelled fields\<close>

text \<open>What the line of field number \<open>n\<close> with value \<open>v\<close> should be.\<close>

definition field_line :: "nat \<Rightarrow> int \<Rightarrow> char list" where
  "field_line n v = pad25 (stat_labels ! (n - 1)) @ '' : '' @
     (if hex_field n then ''0x'' @ hex (nat v) else dec_int v) @ eol"

lemma strtoull_dec_int: "0 \<le> v \<Longrightarrow> v < 2 ^ 64 \<Longrightarrow> unat (strtoull (dec_int v)) = nat v"
proof -
  assume "0 \<le> v" "v < 2 ^ 64"
  then obtain n where n: "v = int n" "n < 18446744073709551616"
    by (cases v) auto
  then have "strtoull (dec_int v) = of_nat n"
    using parse_num_dec_int(2) [of "[]" v] by (simp add: strtoull_def not_digit_next_def to_u64_def)
  then show ?thesis using n by (simp add: unat_of_nat_u64)
qed

definition fields_ok :: "nat \<Rightarrow> int list \<Rightarrow> bool" where
  "fields_ok idx is \<longleftrightarrow> (\<forall>k < length is. hex_field (idx + k + 1) \<longrightarrow> 0 \<le> is ! k \<and> is ! k < 2 ^ 64)"

lemma token_lines_fields:
  "fields_ok idx is \<Longrightarrow> idx + length is \<le> 52 \<Longrightarrow>
     token_lines idx (map dec_int is) = map (\<lambda>k. field_line (idx + k + 1) (is ! k)) [0..<length is]"
proof (induction "is" arbitrary: idx)
  case Nil
  then show ?case by simp
next
  case (Cons i "is")
  have "fields_ok (Suc idx) is"
    unfolding fields_ok_def
  proof (intro allI impI)
    fix k assume "k < length is" "hex_field (Suc idx + k + 1)"
    then show "0 \<le> is ! k \<and> is ! k < 2 ^ 64"
      using Cons.prems(1) [unfolded fields_ok_def, THEN spec, of "Suc k"] by simp
  qed
  with Cons have rest: "token_lines (Suc idx) (map dec_int is) =
      map (\<lambda>k. field_line (Suc idx + k + 1) (is ! k)) [0..<length is]" by simp
  have "hex_field (idx + 1) \<Longrightarrow> 0 \<le> i \<and> i < 2 ^ 64"
    using Cons.prems(1) [unfolded fields_ok_def, THEN spec, of 0] by simp
  then have "token_lines idx (map dec_int (i # is)) =
      field_line (idx + 1) i # token_lines (Suc idx) (map dec_int is)"
    using Cons.prems(2) by (auto simp: field_line_def strtoull_dec_int)
  also have "\<dots> = map (\<lambda>k. field_line (idx + k + 1) ((i # is) ! k)) [0..<length (i # is)]"
    unfolding rest by (simp add: upt_conv_Cons map_Suc_upt [symmetric] del: upt_Suc)
  finally show ?case .
qed

lemma list_update_middle: "length a = k \<Longrightarrow> (a @ x # b)[k := y] = a @ y # b"
  by (simp add: list_update_append)

lemma full_stat_line:
  assumes "nul_free name" "st \<noteq> CHR '')''" "st \<noteq> nul" "\<not> stat_delim st"
    and "- 2147483648 \<le> pid" "pid < 2147483648" "length is \<le> 49" "fields_ok 3 is"
  shows "full_stat_text (stat_line pid name st is) =
    Inr ((pad25 (stat_labels ! 0) @ '' : '' @ dec_int pid @ eol) #
      (pad25 (stat_labels ! 1) @ '' : '' @ name @ eol) #
      (pad25 (stat_labels ! 2) @ '' : '' @ [st] @ eol) #
      map (\<lambda>k. field_line (k + 4) (is ! k)) [0..<length is])"
proof -
  let ?rest = "st # spaced is @ eol" and ?l = "length (dec_int pid) + 1"
  let ?r = "length (dec_int pid) + 2 + length name"
  have lp: "first_index CHR ''('' (stat_line pid name st is) = Some ?l"
    using first_index_at [of "CHR ''(''" "dec_int pid @ '' ''"] paren_not_in_dec(1)
    by (simp add: stat_line_def)
  note rp = stat_line_rparen [OF assms(2), of pid name "is"]
  let ?buf = "dec_int pid @ '' '' @ nul # name @ nul # CHR 0x20 # ?rest @ [nul]"
  have "(stat_line pid name st is @ [nul])[?l := nul, ?r := nul] = ?buf"
  proof -
    have "stat_line pid name st is @ [nul] =
        (dec_int pid @ '' '') @ CHR ''('' # name @ CHR '')'' # CHR 0x20 # ?rest @ [nul]"
      by (simp add: stat_line_def)
    then have "(stat_line pid name st is @ [nul])[?l := nul] =
        (dec_int pid @ '' '') @ nul # name @ CHR '')'' # CHR 0x20 # ?rest @ [nul]"
      by (simp only:) (rule list_update_middle, simp)
    also have "\<dots> = (dec_int pid @ '' '' @ nul # name) @ CHR '')'' # CHR 0x20 # ?rest @ [nul]"
      by simp
    finally show ?thesis
      using list_update_middle [of "dec_int pid @ '' '' @ nul # name" ?r "CHR '')''" "CHR 0x20 # ?rest @ [nul]" nul]
      by simp
  qed
  moreover have "c_string ?buf 0 = Inr (dec_int pid @ '' '')"
    using cstr_at [of "dec_int pid @ '' ''" "[]" 0] terminated_at [of "[]" 0 "dec_int pid @ '' ''"]
    by (simp add: c_string_def)
  moreover have "c_string ?buf (?l + 1) = Inr name"
    using cstr_at [OF assms(1), of "dec_int pid @ '' '' @ [nul]" "?l + 1"]
      terminated_at [of "dec_int pid @ '' '' @ [nul]" "?l + 1" name]
    by (simp add: c_string_def)
  moreover have "c_string ?buf (?r + 2) = Inr ?rest"
    using cstr_at [of ?rest "dec_int pid @ '' '' @ nul # name @ nul # '' ''" "?r + 2" "[]"] assms(3)
      terminated_at [of "dec_int pid @ '' '' @ nul # name @ nul # '' ''" "?r + 2" ?rest "[]"]
    by (simp add: c_string_def)
  moreover have "parse_num 10 (dec_int pid @ '' '') = Some (pid < 0, nat \<bar>pid\<bar>, '' '')"
    by (rule parse_num_dec_int(2)) (simp add: not_digit_next_def)
  moreover have "sint (of_int pid :: u32) = pid"
    using assms(5,6) by (simp add: signed_of_int signed_take_bit_int_eq_self)
  moreover have "strtok_all ?rest = [st] # map dec_int is"
  proof -
    have "stat_delim (hd (spaced is @ eol))"
      by (cases "is") (simp_all add: eol_def stat_delim_def)
    then show ?thesis
      using strtok_word [of "[st]" "spaced is @ eol"] assms(4) strtok_spaced by simp
  qed
  moreover have "token_lines 2 ([st] # map dec_int is) =
      (pad25 (stat_labels ! 2) @ '' : '' @ [st] @ eol) # map (\<lambda>k. field_line (k + 4) (is ! k)) [0..<length is]"
    using token_lines_fields [OF assms(8)] assms(7) by (simp add: hex_field_def add.commute flip: numeral_3_eq_3)
  ultimately show ?thesis
    unfolding full_stat_text_def lp rp by (simp add: Let_def)
qed

section \<open>Properties\<close>

text \<open>
  C33: the text dumps are complete. The environment dump is the whole environment with NUL
  replaced by newline, however many 4096-byte reads it takes; the io dump of a file without NUL is the file;
  the command line is cut after 4095 bytes.
\<close>

theorem proc_dumps_complete:
  assumes "create_file_in_dir w d ''environ.txt'' = Some p" "proc_file w (proc_path pid ''environ'') = Some env"
    and "create_file_in_dir w d ''io.txt'' = Some q" "proc_file w (proc_path pid ''io'') = Some io" "nul_free io"
  shows "print_environ w pid d = [(p, ''--- environ ---'' @ eol @ map (nul_to CHR 0x0A) env @ eol)] \<and>
    print_io w pid d = [(q, ''--- io ---'' @ eol @ io)] \<and>
    (\<forall>r cmd. create_file_in_dir w d ''cmdline.txt'' = Some r \<and> proc_file w (proc_path pid ''cmdline'') = Some cmd \<and>
       cmd \<noteq> [] \<longrightarrow> print_cmdline w pid d =
         [(r, ''--- cmdline ---'' @ eol @ map (nul_to CHR 0x20) (take 4095 cmd) @ eol)])"
  using assms
  by (simp add: print_environ_def print_io_def print_cmdline_def dump_file_def environ_chunks_map
      copy_lines_id cmdline_text_def BUF_SIZE_def)

theorem proc_dumps_complete_witness:
  "\<exists>w. print_environ w 1 ''d'' = [(''d/environ.txt'', ''--- environ ---'' @ eol @ ''A=1'' @ eol @ eol)]"
proof -
  let ?w = "\<lparr>proc_file = (\<lambda>_. Some (''A=1'' @ [nul])), proc_dir = (\<lambda>_. None), proc_link = (\<lambda>_. None),
    can_create = (\<lambda>_. True)\<rparr>"
  let ?v = "?w\<lparr>proc_file := (\<lambda>f. if f = proc_path 1 ''io'' then Some ''x'' else Some (''A=1'' @ [nul]))\<rparr>"
  have ne: "proc_path 1 ''environ'' \<noteq> proc_path 1 ''io''"
    by (simp add: proc_path_def snprintf_n_def dec_int_def num_eval)
  have "create_file_in_dir ?v ''d'' ''environ.txt'' = Some ''d/environ.txt''"
    "create_file_in_dir ?v ''d'' ''io.txt'' = Some ''d/io.txt''"
    by (simp_all add: create_file_in_dir_def snprintf_n_def)
  from proc_dumps_complete [OF this(1) _ this(2), of 1 "''A=1'' @ [nul]" "''x''"] ne
  have "print_environ ?v 1 ''d'' = [(''d/environ.txt'', ''--- environ ---'' @ eol @ ''A=1'' @ eol @ eol)]"
    by (simp add: nul_to_def eol_def)
  then show ?thesis by blast
qed

text \<open>
  C8: the status line is taken apart correctly. For a line in the kernel's format, with any
  command name, also one with spaces and parentheses, the extracted numbers are fields 23 (vsize) and
  28 (startstack), and the full dump shows the process id, the name, the state and every
  field under its label, the address fields 26 to 30 and 45 to 51 in hexadecimal.
\<close>

theorem stat_line_dumped:
  assumes "nul_free name" "st \<noteq> CHR '')''" "st \<noteq> nul" "\<not> stat_delim st"
    and "- 2147483648 \<le> pid" "pid < 2147483648" "25 \<le> length is" "length is \<le> 49" "fields_ok 3 is"
  shows "stat_extract (stat_line pid name st is) old =
      Inr (ru_state_header @ eol @ ru_state @ [st] @ eol,
        to_u64 (is ! 19 < 0) (nat \<bar>is ! 19\<bar>), to_u64 (is ! 24 < 0) (nat \<bar>is ! 24\<bar>)) \<and>
    full_stat_text (stat_line pid name st is) =
      Inr ((pad25 (stat_labels ! 0) @ '' : '' @ dec_int pid @ eol) #
        (pad25 (stat_labels ! 1) @ '' : '' @ name @ eol) #
        (pad25 (stat_labels ! 2) @ '' : '' @ [st] @ eol) #
        map (\<lambda>k. field_line (k + 4) (is ! k)) [0..<length is])"
  using stat_extract_line [OF assms(2,3,7)] full_stat_line [OF assms(1-6,8,9)] by blast

theorem stat_line_dumped_witness:
  "stat_extract (stat_line 42 ''a) (b'' CHR ''S'' (map int [1..<26])) (0, 0) =
     Inr (ru_state_header @ eol @ ru_state @ ''S'' @ eol, 20, 25)"
proof -
  have "fields_ok 3 (map int [1..<26])"
    by (simp add: fields_ok_def)
  moreover have "map int [1..<26] ! 19 = 20" "map int [1..<26] ! 24 = 25"
    by simp_all
  ultimately show ?thesis
    using stat_line_dumped [of "''a) (b''" "CHR ''S''" 42 "map int [1..<26]" "(0, 0)"]
    by (simp add: stat_delim_def to_u64_def del: upt_Suc)
qed

end
