(* ===== verification/Proc_Maps.thy ===== *)
theory Proc_Maps
  imports Proc_Stat
begin

text \<open>
  The rest of \<open>lab_03/proc-1/main.c\<close>: the memory map with the page-map decoding, the whole analysis
  of one process, and \<open>main\<close> with its argument checks and the \<open>kill\<close> at the end. The page loop counts
  in 64-bit arithmetic and is given fuel; the formatting of the one floating-point number is a
  parameter.
\<close>

section \<open>The memory map\<close>

definition pad_to :: "nat \<Rightarrow> char list \<Rightarrow> char list" where
  "pad_to n s = s @ replicate (n - length s) CHR 0x20"

definition scan_range :: "char list \<Rightarrow> (u64 \<times> u64) option" where
  \<comment> \<open>\<open>sscanf(line, "%lx-%lx", &start, &end) == 2\<close>\<close>
  "scan_range line =
     (case parse_num 16 line of
        None \<Rightarrow> None
      | Some (neg1, n1, r1) \<Rightarrow>
          (case r1 of
             [] \<Rightarrow> None
           | c # r2 \<Rightarrow>
               if c \<noteq> CHR 0x2D then None
               else
                 (case parse_num 16 r2 of
                    None \<Rightarrow> None
                  | Some (neg2, n2, _) \<Rightarrow> Some (to_u64 neg1 n1, to_u64 neg2 n2))))"

definition maps_row :: "u64 \<Rightarrow> u64 \<Rightarrow> u64 \<Rightarrow> char list \<Rightarrow> char list" where
  "maps_row page_size start end_addr line =
     (let pages_count = (end_addr - start) div page_size in
      case first_index CHR 0x20 line of
        Some k \<Rightarrow> pad_to 35 (take k line) @ '' '' @ pad_to 8 (dec (unat pages_count)) @ '' '' @ drop (k + 1) line
      | None \<Rightarrow> line)"

definition pagemap_row :: "u64 \<Rightarrow> u64 \<Rightarrow> char list" where
  "pagemap_row i data =
     ''0x'' @ pad_to 14 (hex (unat i)) @ '' : '' @
     pad_to 16 (hex (unat (data AND (push_bit 55 1 - 1)))) @ '' '' @
     pad_to 10 (dec (unat (drop_bit 55 data AND 1))) @ '' '' @
     pad_to 11 (dec (unat (drop_bit 61 data AND 1))) @ '' '' @
     pad_to 7 (dec (unat (drop_bit 62 data AND 1))) @ '' '' @
     pad_to 7 (dec (unat (drop_bit 63 data AND 1))) @ eol"

fun page_addrs :: "nat \<Rightarrow> u64 \<Rightarrow> u64 \<Rightarrow> u64 \<Rightarrow> u64 list option" where
  \<comment> \<open>the values of \<open>i\<close> in \<open>for (i = start; i < end; i += page_size)\<close>\<close>
  "page_addrs 0 page_size i end_addr = None"
| "page_addrs (Suc n) page_size i end_addr =
     (if i < end_addr then map_option ((#) i) (page_addrs n page_size (i + page_size) end_addr)
      else Some [])"

definition pagemap_rows :: "(u64 \<Rightarrow> u64 option) \<Rightarrow> u64 \<Rightarrow> u64 list \<Rightarrow> char list" where
  "pagemap_rows pread page_size addrs =
     concat (map (\<lambda>i. case pread ((i div page_size) * 8) of None \<Rightarrow> [] | Some data \<Rightarrow> pagemap_row i data) addrs)"

record maps_env =
  page_size :: u64
  pagemap :: "(u64 \<Rightarrow> u64 option) option" \<comment> \<open>\<open>None\<close>: the page map could not be opened\<close>
  out_maps :: bool
  out_pagemap :: bool

text \<open>One line: its contribution to the size, to \<open>maps.txt\<close> and to \<open>pagemap.txt\<close>.\<close>

definition maps_line :: "nat \<Rightarrow> maps_env \<Rightarrow> char list \<Rightarrow> (u64 \<times> char list \<times> char list) option" where
  "maps_line fuel env line =
     (case scan_range line of
        None \<Rightarrow> Some (0, [], [])
      | Some (start, end_addr) \<Rightarrow>
          let row = (if out_maps env then maps_row (page_size env) start end_addr line else []) in
          (case pagemap env of
             Some pread \<Rightarrow>
               if out_pagemap env
               then map_option (\<lambda>addrs. (end_addr - start, row, pagemap_rows pread (page_size env) addrs))
                      (page_addrs fuel (page_size env) start end_addr)
               else Some (end_addr - start, row, [])
           | None \<Rightarrow> Some (end_addr - start, row, [])))"

function maps_loop :: "nat \<Rightarrow> maps_env \<Rightarrow> char list \<Rightarrow> (u64 \<times> char list \<times> char list) option" where
  "maps_loop fuel env s =
     (case fgets BUF_SIZE s of
        None \<Rightarrow> Some (0, [], [])
      | Some (l, r) \<Rightarrow>
          (case maps_line fuel env (text_of l) of
             None \<Rightarrow> None
           | Some (v, m, p) \<Rightarrow>
               map_option (\<lambda>(v', m', p'). (v + v', m @ m', p @ p')) (maps_loop fuel env r)))"
  by auto
termination
  by (relation "measure (\<lambda>(_, _, s). length s)") (auto dest: fgets_split(3) simp: BUF_SIZE_def)

declare maps_loop.simps [simp del]

definition ru_maps_address :: "char list" where
  \<comment> \<open>UTF-8\<close>
  "ru_maps_address =
     [CHR 0xD0, CHR 0x90, CHR 0xD0, CHR 0xB4, CHR 0xD1, CHR 0x80, CHR 0xD0, CHR 0xB5, CHR 0xD1,
      CHR 0x81, CHR 0x20, CHR 0x28, CHR 0xD0, CHR 0x94, CHR 0xD0, CHR 0xB8, CHR 0xD0, CHR 0xB0,
      CHR 0xD0, CHR 0xBF, CHR 0xD0, CHR 0xB0, CHR 0xD0, CHR 0xB7, CHR 0xD0, CHR 0xBE, CHR 0xD0,
      CHR 0xBD, CHR 0x29]"

definition ru_maps_pages :: "char list" where
  \<comment> \<open>UTF-8\<close>
  "ru_maps_pages =
     [CHR 0xD0, CHR 0xA1, CHR 0xD1, CHR 0x82, CHR 0xD1, CHR 0x80, CHR 0xD0, CHR 0xB0, CHR 0xD0,
      CHR 0xBD, CHR 0xD0, CHR 0xB8, CHR 0xD1, CHR 0x86, CHR 0xD1, CHR 0x8B]"

definition ru_maps_rest :: "char list" where
  \<comment> \<open>UTF-8\<close>
  "ru_maps_rest =
     [CHR 0xD0, CHR 0x9F, CHR 0xD1, CHR 0x80, CHR 0xD0, CHR 0xB0, CHR 0xD0, CHR 0xB2, CHR 0xD0,
      CHR 0xB0, CHR 0x2C, CHR 0x20, CHR 0xD1, CHR 0x81, CHR 0xD0, CHR 0xBC, CHR 0xD0, CHR 0xB5,
      CHR 0xD1, CHR 0x89, CHR 0xD0, CHR 0xB5, CHR 0xD0, CHR 0xBD, CHR 0xD0, CHR 0xB8, CHR 0xD0,
      CHR 0xB5, CHR 0x2C, CHR 0x20, CHR 0x64, CHR 0x65, CHR 0x76, CHR 0x2C, CHR 0x20, CHR 0x69,
      CHR 0x6E, CHR 0x6F, CHR 0x64, CHR 0x65, CHR 0x2C, CHR 0x20, CHR 0xD0, CHR 0xBF, CHR 0xD1,
      CHR 0x83, CHR 0xD1, CHR 0x82, CHR 0xD1, CHR 0x8C]"

definition ru_pagemap_error :: "char list" where
  \<comment> \<open>UTF-8\<close>
  "ru_pagemap_error =
     [CHR 0xD0, CHR 0x9E, CHR 0xD1, CHR 0x88, CHR 0xD0, CHR 0xB8, CHR 0xD0, CHR 0xB1, CHR 0xD0,
      CHR 0xBA, CHR 0xD0, CHR 0xB0, CHR 0x3A, CHR 0x20, CHR 0xD0, CHR 0x9D, CHR 0xD0, CHR 0xB5,
      CHR 0x20, CHR 0xD1, CHR 0x83, CHR 0xD0, CHR 0xB4, CHR 0xD0, CHR 0xB0, CHR 0xD0, CHR 0xBB,
      CHR 0xD0, CHR 0xBE, CHR 0xD1, CHR 0x81, CHR 0xD1, CHR 0x8C, CHR 0x20, CHR 0xD0, CHR 0xBE,
      CHR 0xD1, CHR 0x82, CHR 0xD0, CHR 0xBA, CHR 0xD1, CHR 0x80, CHR 0xD1, CHR 0x8B, CHR 0xD1,
      CHR 0x82, CHR 0xD1, CHR 0x8C, CHR 0x20, CHR 0x70, CHR 0x61, CHR 0x67, CHR 0x65, CHR 0x6D,
      CHR 0x61, CHR 0x70, CHR 0x20, CHR 0x28, CHR 0xD1, CHR 0x82, CHR 0xD1, CHR 0x80, CHR 0xD0,
      CHR 0xB5, CHR 0xD0, CHR 0xB1, CHR 0xD1, CHR 0x83, CHR 0xD1, CHR 0x8E, CHR 0xD1, CHR 0x82,
      CHR 0xD1, CHR 0x81, CHR 0xD1, CHR 0x8F, CHR 0x20, CHR 0xD0, CHR 0xBF, CHR 0xD1, CHR 0x80,
      CHR 0xD0, CHR 0xB0, CHR 0xD0, CHR 0xB2, CHR 0xD0, CHR 0xB0, CHR 0x20, CHR 0x73, CHR 0x75,
      CHR 0x64, CHR 0x6F, CHR 0x29, CHR 0x2E]"

definition ru_pagemap_address :: "char list" where
  \<comment> \<open>UTF-8\<close>
  "ru_pagemap_address =
     [CHR 0xD0, CHR 0x90, CHR 0xD0, CHR 0xB4, CHR 0xD1, CHR 0x80, CHR 0xD0, CHR 0xB5, CHR 0xD1,
      CHR 0x81, CHR 0x20, CHR 0x20, CHR 0x20, CHR 0x20, CHR 0x20, CHR 0x20, CHR 0x20, CHR 0x20,
      CHR 0x20, CHR 0x20, CHR 0x20, CHR 0x20]"

definition maps_header :: "char list" where
  "maps_header = ''--- maps ---'' @ eol @ pad_to 48 ru_maps_address @ '' '' @ pad_to 12 ru_maps_pages @ '' '' @
     ru_maps_rest @ eol"

definition pagemap_header :: "char list" where
  "pagemap_header = ''--- pagemap ---'' @ eol @ ru_pagemap_address @
     '': pfn              soft-dirty file/shared swapped present'' @ eol"

definition process_maps_and_pagemap ::
  "nat \<Rightarrow> proc_world \<Rightarrow> u64 \<Rightarrow> (u64 \<Rightarrow> u64 option) option \<Rightarrow> int \<Rightarrow> char list \<Rightarrow> (files \<times> u64) option" where
  \<comment> \<open>the files and \<open>*calculated_vsize\<close>, which is 0 before the call\<close>
  "process_maps_and_pagemap fuel w psize pm pid dirpath =
     (case proc_file w (proc_path pid ''maps'') of
        None \<Rightarrow> Some ([], 0)
      | Some content \<Rightarrow>
          let om = create_file_in_dir w dirpath ''maps.txt''; op = create_file_in_dir w dirpath ''pagemap.txt'' in
          map_option (\<lambda>(v, m, p).
              ((case om of None \<Rightarrow> [] | Some f \<Rightarrow> [(f, maps_header @ m)]) @
               (case op of None \<Rightarrow> []
                | Some f \<Rightarrow> [(f, (if pm = None then ru_pagemap_error @ eol else pagemap_header) @ p)]), v))
            (maps_loop fuel \<lparr>page_size = psize, pagemap = pm, out_maps = om \<noteq> None, out_pagemap = op \<noteq> None\<rparr>
               content))"

section \<open>One process\<close>

definition ru_calc_header :: "char list" where
  \<comment> \<open>UTF-8\<close>
  "ru_calc_header =
     [CHR 0x2D, CHR 0x2D, CHR 0x2D, CHR 0x20, CHR 0xD0, CHR 0x94, CHR 0xD0, CHR 0xBE, CHR 0xD0,
      CHR 0xBF, CHR 0xD0, CHR 0xBE, CHR 0xD0, CHR 0xBB, CHR 0xD0, CHR 0xBD, CHR 0xD0, CHR 0xB8,
      CHR 0xD1, CHR 0x82, CHR 0xD0, CHR 0xB5, CHR 0xD0, CHR 0xBB, CHR 0xD1, CHR 0x8C, CHR 0xD0,
      CHR 0xBD, CHR 0xD1, CHR 0x8B, CHR 0xD0, CHR 0xB5, CHR 0x20, CHR 0xD0, CHR 0xB2, CHR 0xD1,
      CHR 0x8B, CHR 0xD1, CHR 0x87, CHR 0xD0, CHR 0xB8, CHR 0xD1, CHR 0x81, CHR 0xD0, CHR 0xBB,
      CHR 0xD0, CHR 0xB5, CHR 0xD0, CHR 0xBD, CHR 0xD0, CHR 0xB8, CHR 0xD1, CHR 0x8F, CHR 0x20,
      CHR 0x2D, CHR 0x2D, CHR 0x2D]"

definition ru_stack_dec :: "char list" where
  \<comment> \<open>UTF-8\<close>
  "ru_stack_dec =
     [CHR 0xD0, CHR 0x9D, CHR 0xD0, CHR 0xB8, CHR 0xD0, CHR 0xB7, CHR 0x20, CHR 0xD1, CHR 0x81,
      CHR 0xD1, CHR 0x82, CHR 0xD0, CHR 0xB5, CHR 0xD0, CHR 0xBA, CHR 0xD0, CHR 0xB0, CHR 0x20,
      CHR 0x28, CHR 0x73, CHR 0x74, CHR 0x61, CHR 0x72, CHR 0x74, CHR 0x73, CHR 0x74, CHR 0x61,
      CHR 0x63, CHR 0x6B, CHR 0x29, CHR 0x20, CHR 0xD0, CHR 0xB2, CHR 0x20, CHR 0xD0, CHR 0xB4,
      CHR 0xD0, CHR 0xB5, CHR 0xD1, CHR 0x81, CHR 0xD1, CHR 0x8F, CHR 0xD1, CHR 0x82, CHR 0xD0,
      CHR 0xB8, CHR 0xD1, CHR 0x87, CHR 0xD0, CHR 0xBD, CHR 0xD0, CHR 0xBE, CHR 0xD0, CHR 0xBC,
      CHR 0x20, CHR 0xD0, CHR 0xB2, CHR 0xD0, CHR 0xB8, CHR 0xD0, CHR 0xB4, CHR 0xD0, CHR 0xB5,
      CHR 0x3A, CHR 0x20]"

definition ru_bytes :: "char list" where
  \<comment> \<open>UTF-8\<close>
  "ru_bytes =
     [CHR 0x20, CHR 0xD0, CHR 0xB1, CHR 0xD0, CHR 0xB0, CHR 0xD0, CHR 0xB9, CHR 0xD1, CHR 0x82]"

definition ru_stack_tb :: "char list" where
  \<comment> \<open>UTF-8\<close>
  "ru_stack_tb =
     [CHR 0xD0, CHR 0x9D, CHR 0xD0, CHR 0xB8, CHR 0xD0, CHR 0xB7, CHR 0x20, CHR 0xD1, CHR 0x81,
      CHR 0xD1, CHR 0x82, CHR 0xD0, CHR 0xB5, CHR 0xD0, CHR 0xBA, CHR 0xD0, CHR 0xB0, CHR 0x20,
      CHR 0x28, CHR 0x73, CHR 0x74, CHR 0x61, CHR 0x72, CHR 0x74, CHR 0x73, CHR 0x74, CHR 0x61,
      CHR 0x63, CHR 0x6B, CHR 0x29, CHR 0x20, CHR 0xD0, CHR 0xB2, CHR 0x20, CHR 0xD0, CHR 0xA2,
      CHR 0xD0, CHR 0xB5, CHR 0xD1, CHR 0x80, CHR 0xD0, CHR 0xB0, CHR 0xD0, CHR 0xB1, CHR 0xD0,
      CHR 0xB0, CHR 0xD0, CHR 0xB9, CHR 0xD1, CHR 0x82, CHR 0xD0, CHR 0xB0, CHR 0xD1, CHR 0x85,
      CHR 0x3A, CHR 0x20]"

definition ru_tb :: "char list" where
  \<comment> \<open>UTF-8\<close>
  "ru_tb =
     [CHR 0x20, CHR 0xD0, CHR 0xA2, CHR 0xD0, CHR 0x91]"

definition ru_vsize :: "char list" where
  \<comment> \<open>UTF-8\<close>
  "ru_vsize =
     [CHR 0xD0, CHR 0x92, CHR 0xD0, CHR 0xB8, CHR 0xD1, CHR 0x80, CHR 0xD1, CHR 0x82, CHR 0xD1,
      CHR 0x83, CHR 0xD0, CHR 0xB0, CHR 0xD0, CHR 0xBB, CHR 0xD1, CHR 0x8C, CHR 0xD0, CHR 0xBD,
      CHR 0xD0, CHR 0xB0, CHR 0xD1, CHR 0x8F, CHR 0x20, CHR 0xD0, CHR 0xBF, CHR 0xD0, CHR 0xB0,
      CHR 0xD0, CHR 0xBC, CHR 0xD1, CHR 0x8F, CHR 0xD1, CHR 0x82, CHR 0xD1, CHR 0x8C, CHR 0x20,
      CHR 0x28, CHR 0x76, CHR 0x73, CHR 0x69, CHR 0x7A, CHR 0x65, CHR 0x20, CHR 0xD0, CHR 0xB8,
      CHR 0xD0, CHR 0xB7, CHR 0x20, CHR 0x73, CHR 0x74, CHR 0x61, CHR 0x74, CHR 0x29, CHR 0x3A,
      CHR 0x20]"

definition ru_regions :: "char list" where
  \<comment> \<open>UTF-8\<close>
  "ru_regions =
     [CHR 0xD0, CHR 0xA1, CHR 0xD1, CHR 0x83, CHR 0xD0, CHR 0xBC, CHR 0xD0, CHR 0xBC, CHR 0xD0,
      CHR 0xB0, CHR 0x20, CHR 0xD1, CHR 0x80, CHR 0xD0, CHR 0xB5, CHR 0xD0, CHR 0xB3, CHR 0xD0,
      CHR 0xB8, CHR 0xD0, CHR 0xBE, CHR 0xD0, CHR 0xBD, CHR 0xD0, CHR 0xBE, CHR 0xD0, CHR 0xB2,
      CHR 0x20, CHR 0x28, CHR 0xD1, CHR 0x80, CHR 0xD0, CHR 0xB0, CHR 0xD0, CHR 0xB7, CHR 0xD0,
      CHR 0xBC, CHR 0xD0, CHR 0xB5, CHR 0xD1, CHR 0x80, CHR 0x20, CHR 0xD0, CHR 0xB8, CHR 0xD0,
      CHR 0xB7, CHR 0x20, CHR 0x6D, CHR 0x61, CHR 0x70, CHR 0x73, CHR 0x29, CHR 0x20, CHR 0x3A,
      CHR 0x20]"

definition calculations :: "(u64 \<Rightarrow> char list) \<Rightarrow> u64 \<Rightarrow> u64 \<Rightarrow> u64 \<Rightarrow> char list" where
  \<comment> \<open>the first argument formats the stack address in terabytes as \<open>%.6f\<close>\<close>
  "calculations show_tb startstack stat_vsize maps_vsize =
     ru_calc_header @ eol @
     ru_stack_dec @ dec (unat startstack) @ ru_bytes @ eol @
     ru_stack_tb @ show_tb startstack @ ru_tb @ eol @ eol @
     ru_vsize @ dec (unat stat_vsize) @ ru_bytes @ eol @
     ru_regions @ dec (unat maps_vsize) @ ru_bytes @ eol"

record sys_env =
  world :: proc_world
  sys_page_size :: u64
  pagemap_of :: "int \<Rightarrow> (u64 \<Rightarrow> u64 option) option"
  show_tb :: "u64 \<Rightarrow> char list"

definition analyze_process :: "nat \<Rightarrow> sys_env \<Rightarrow> int \<Rightarrow> char list \<Rightarrow> files may_fault option" where
  "analyze_process fuel env pid d =
     (let w = world env; f1 = print_environ w pid d in
      case print_stat_and_extract w pid d (0, 0) of
        Inl e \<Rightarrow> Some (Inl e)
      | Inr (f2, stat_vsize, startstack) \<Rightarrow>
          (case print_full_stat w pid d of
             Inl e \<Rightarrow> Some (Inl e)
           | Inr f3 \<Rightarrow>
               let f4 = print_cmdline w pid d @ print_fd w pid d @ print_symlink w pid ''cwd'' d @
                     print_symlink w pid ''exe'' d @ print_symlink w pid ''root'' d in
               (case process_maps_and_pagemap fuel w (sys_page_size env) (pagemap_of env pid) pid d of
                  None \<Rightarrow> None
                | Some (f5, maps_vsize) \<Rightarrow>
                    let f6 = print_io w pid d @ print_comm w pid d @ print_task w pid d;
                        f7 = (case create_file_in_dir w d ''calculations.txt'' of
                                None \<Rightarrow> []
                              | Some out \<Rightarrow> [(out, calculations (show_tb env) startstack stat_vsize maps_vsize)]) in
                    Some (Inr (f1 @ f2 @ f3 @ f4 @ f5 @ f6 @ f7)))))"

section \<open>Arguments and main\<close>

datatype arg_error = Not_a_number | Bad_characters | Not_positive

definition parse_pid :: "char list \<Rightarrow> arg_error + int" where
  "parse_pid arg =
     (case strtol arg of
        (val, endptr) \<Rightarrow>
          if endptr = arg then Inl Not_a_number
          else if endptr \<noteq> [] then Inl Bad_characters
          else if val \<le> 0 then Inl Not_positive
          else Inr (sint (of_int val :: u32)))"

fun parse_pids :: "char list list \<Rightarrow> arg_error + int list" where
  "parse_pids [] = Inr []"
| "parse_pids (a # as) = rbind (parse_pid a) (\<lambda>p. rbind (parse_pids as) (\<lambda>ps. Inr (p # ps)))"

datatype proc_act = Mkdir_failed "char list" | Analyzed int files | Killed int | Waited int

definition pid_dir :: "int \<Rightarrow> char list" where
  "pid_dir pid = snprintf_n 256 (''pid_'' @ dec_int pid)"

definition run_one :: "nat \<Rightarrow> sys_env \<Rightarrow> int \<Rightarrow> char list \<Rightarrow> proc_act list may_fault option \<Rightarrow>
    proc_act list may_fault option" where
  \<comment> \<open>analyse, kill, wait, then the rest of the loop\<close>
  "run_one fuel env pid d later =
     (case analyze_process fuel env pid d of
        None \<Rightarrow> None
      | Some (Inl e) \<Rightarrow> Some (Inl e)
      | Some (Inr fs) \<Rightarrow>
          map_option (\<lambda>r. rbind r (\<lambda>as. Inr (Analyzed pid fs # Killed pid # Waited pid # as))) later)"

text \<open>\<open>mkdir\<close> returns an error number or \<open>None\<close>; a directory that exists is fine.\<close>

fun run_pids :: "nat \<Rightarrow> sys_env \<Rightarrow> (char list \<Rightarrow> errno option) \<Rightarrow> int list \<Rightarrow> proc_act list may_fault option" where
  "run_pids fuel env mkdir [] = Some (Inr [])"
| "run_pids fuel env mkdir (pid # pids) =
     (let d = pid_dir pid in
      case mkdir d of
        Some e \<Rightarrow>
          if e \<noteq> EEXIST
          then map_option (\<lambda>r. rbind r (\<lambda>as. Inr (Mkdir_failed d # as))) (run_pids fuel env mkdir pids)
          else run_one fuel env pid d (run_pids fuel env mkdir pids)
      | None \<Rightarrow> run_one fuel env pid d (run_pids fuel env mkdir pids))"

datatype main_result = Usage | Arg_error arg_error | Done "proc_act list"

definition proc_main ::
  "nat \<Rightarrow> sys_env \<Rightarrow> (char list \<Rightarrow> errno option) \<Rightarrow> char list list \<Rightarrow> (main_result \<times> int) may_fault option" where
  \<comment> \<open>the arguments after \<open>argv[0]\<close>; the result and the exit status\<close>
  "proc_main fuel env mkdir args =
     (if length args \<noteq> 3 then Some (Inr (Usage, 1))
      else
        (case parse_pids args of
           Inl e \<Rightarrow> Some (Inr (Arg_error e, 1))
         | Inr pids \<Rightarrow> map_option (\<lambda>r. rbind r (\<lambda>as. Inr (Done as, 0))) (run_pids fuel env mkdir pids)))"

end
