(* ===== verification/Proc_Main.thy ===== *)
theory Proc_Main
  imports Proc_Maps
begin

text \<open>
  What the memory map dump and \<open>main\<close> of \<open>lab_03/proc-1/main.c\<close> produce: a map in the kernel's
  format is copied row by row, its sizes add up, and every page gets one row of its page-map entry;
  and which processes are killed for which arguments.
\<close>

section \<open>Pages of a region\<close>






section \<open>Lines of the map\<close>


















section \<open>Page-map entries\<close>












section \<open>Arguments\<close>








section \<open>Properties\<close>






end
