(* ===== verification/Fd_Read.thy ===== *)
theory Fd_Read
  imports Prelude
begin

text \<open>
  The single-threaded reading programs of \<open>lab_05/src\<close>. An open file is its content with the offset of the
  open file description; a failed \<open>open\<close> is \<open>None\<close>. \<open>1.c\<close> puts two buffered streams on one
  description, \<open>2-1t.c\<close> reads through two descriptions in turn. The reference \<open>weave\<close> says in which
  order the bytes come out.
\<close>

section \<open>Open files\<close>

record open_file =
  file_bytes :: "char list"
  file_pos :: nat

definition unread :: "open_file \<Rightarrow> char list" where
  "unread f = drop (file_pos f) (file_bytes f)"

definition sys_read :: "nat \<Rightarrow> open_file \<Rightarrow> char list \<times> open_file" where
  "sys_read n f = (let bs = take n (unread f) in (bs, f\<lparr>file_pos := file_pos f + length bs\<rparr>))"

definition fresh :: "char list \<Rightarrow> open_file" where
  "fresh xs = \<lparr>file_bytes = xs, file_pos = 0\<rparr>"

lemma unread_read: "unread (snd (sys_read n f)) = drop n (unread f)"
  by (cases "n \<le> length (unread f)") (auto simp: sys_read_def unread_def Let_def add.commute min_def)

lemma sys_read_fst: "fst (sys_read n f) = take n (unread f)"
  by (simp add: sys_read_def Let_def)

lemma unread_fresh [simp]: "unread (fresh xs) = xs"
  by (simp add: unread_def fresh_def)

section \<open>1.c\<close>

definition STREAM_BUF :: nat where
  "STREAM_BUF = 20"

definition scan_char :: "open_file \<Rightarrow> char list \<Rightarrow> char option \<times> open_file \<times> char list" where
  \<comment> \<open>\<open>fscanf(fs, "%c", &c)\<close> on a stream with the unread buffer \<open>b\<close>\<close>
  "scan_char f b =
     (case b of
        c # b' \<Rightarrow> (Some c, f, b')
      | [] \<Rightarrow>
          (case sys_read STREAM_BUF f of
             ([], f') \<Rightarrow> (None, f', [])
           | (c # b', f') \<Rightarrow> (Some c, f', b')))"

definition shown :: "char option \<Rightarrow> char list" where
  "shown r = (case r of None \<Rightarrow> [] | Some c \<Rightarrow> [c])"

lemma sys_read_pair: "sys_read n f = (take n (unread f), snd (sys_read n f))"
  by (simp add: sys_read_def Let_def)

lemma scan_char_buffered: "scan_char f (c # b) = (Some c, f, b)"
  by (simp add: scan_char_def)

lemma scan_char_eof: "unread f = [] \<Longrightarrow> \<exists>f'. scan_char f [] = (None, f', []) \<and> unread f' = []"
  unfolding scan_char_def by (subst sys_read_pair) (simp add: unread_read)

lemma scan_char_refill:
  assumes "unread f = c # cs"
  shows "\<exists>f'. scan_char f [] = (Some c, f', take 19 cs) \<and> unread f' = drop 19 cs"
proof -
  have t: "take STREAM_BUF (unread f) = c # take 19 cs" and d: "drop STREAM_BUF (unread f) = drop 19 cs"
    using assms by (simp_all add: STREAM_BUF_def eval_nat_numeral)
  show ?thesis
    unfolding scan_char_def by (subst sys_read_pair) (simp add: t unread_read d)
qed

lemma scan_char_progress:
  assumes "scan_char f b = (r, f', b')"
  shows "length (unread f') + length b' + length (shown r) = length (unread f) + length b"
proof (cases b)
  case Nil
  show ?thesis
  proof (cases "unread f")
    case Nil
    then show ?thesis using assms scan_char_eof [OF Nil] \<open>b = []\<close> by (auto simp: shown_def)
  next
    case (Cons c cs)
    then show ?thesis using assms scan_char_refill [OF Cons] \<open>b = []\<close> by (auto simp: shown_def)
  qed
next
  case (Cons c b'')
  then show ?thesis using assms by (auto simp: scan_char_buffered shown_def)
qed

lemma scan_two_progress:
  assumes "scan_char f b1 = (r1, f1, b1')" "scan_char f1 b2 = (r2, f2, b2')" "r1 \<noteq> None \<or> r2 \<noteq> None"
  shows "length (unread f2) + length b1' + length b2' < length (unread f) + length b1 + length b2"
  using assms(3) scan_char_progress [OF assms(1)] scan_char_progress [OF assms(2)]
  by (auto simp: shown_def)

function two_streams :: "open_file \<Rightarrow> char list \<Rightarrow> char list \<Rightarrow> char list" where
  "two_streams f b1 b2 =
     (case scan_char f b1 of
        (r1, f1, b1') \<Rightarrow>
          (case scan_char f1 b2 of
             (r2, f2, b2') \<Rightarrow>
               if r1 = None \<and> r2 = None then []
               else shown r1 @ shown r2 @ two_streams f2 b1' b2'))"
  by auto
termination
  by (relation "measure (\<lambda>(f, b1, b2). length (unread f) + length b1 + length b2)")
     (simp, metis (no_types, lifting) in_measure case_prod_conv scan_two_progress)

declare two_streams.simps [simp del]

definition main_1 :: "open_file option \<Rightarrow> char list may_fault" where
  \<comment> \<open>what is printed; \<open>fdopen(-1)\<close> is NULL, which \<open>setvbuf\<close> dereferences\<close>
  "main_1 fd = (case fd of None \<Rightarrow> Inl Null_Deref | Some f \<Rightarrow> Inr (two_streams f [] []))"

text \<open>The reference: the blocks of twenty bytes are taken in pairs and each pair is interleaved.\<close>

function weave :: "char list \<Rightarrow> char list" where
  "weave xs =
     (if xs = [] then []
      else splice (take STREAM_BUF xs) (take STREAM_BUF (drop STREAM_BUF xs)) @ weave (drop (2 * STREAM_BUF) xs))"
  by auto
termination
  by (relation "measure length") (auto simp: STREAM_BUF_def)

declare weave.simps [simp del]

lemma two_streams_weave:
  "length b1 = length b2 \<or> unread f = [] \<Longrightarrow>
    two_streams f b1 b2 = splice b1 b2 @ weave (unread f)"
proof (induction f b1 b2 rule: two_streams.induct)
  case (1 f b1 b2)
  obtain r1 f1 b1' where s1: "scan_char f b1 = (r1, f1, b1')" by (cases "scan_char f b1")
  obtain r2 f2 b2' where s2: "scan_char f1 b2 = (r2, f2, b2')" by (cases "scan_char f1 b2")
  note IH = 1(1) [OF s1 [symmetric] refl s2 [symmetric] refl]
  have w0: "weave [] = []" by (simp add: weave.simps)
  consider (both) c d u v where "b1 = c # u" "b2 = d # v"
    | (first) c u where "b1 = c # u" "b2 = []" "unread f = []"
    | (second) d v where "b1 = []" "b2 = d # v" "unread f = []"
    | (end_of_file) "b1 = []" "b2 = []" "unread f = []"
    | (refill) "b1 = []" "b2 = []" "unread f \<noteq> []"
    using 1(2) by (cases b1; cases b2) auto
  then show ?case
  proof cases
    case both
    then show ?thesis
      using s1 s2 IH 1(2) by (subst two_streams.simps) (auto simp: scan_char_buffered shown_def)
  next
    case first
    then show ?thesis
      using s1 s2 IH 1(2) scan_char_eof [of f]
      by (subst two_streams.simps) (auto simp: scan_char_buffered shown_def)
  next
    case second
    then show ?thesis
      using s1 s2 IH 1(2) scan_char_eof [of f]
      by (subst two_streams.simps) (auto simp: scan_char_buffered shown_def)
  next
    case end_of_file
    then obtain f' where "scan_char f [] = (None, f', [])" "unread f' = []"
      using scan_char_eof [of f] by blast
    moreover from this obtain f'' where "scan_char f' [] = (None, f'', [])"
      using scan_char_eof [of f'] by blast
    ultimately show ?thesis
      using end_of_file s1 s2 by (subst two_streams.simps) (auto simp: w0)
  next
    case refill
    obtain c cs where cs: "unread f = c # cs" using refill(3) by (cases "unread f") auto
    then have x: "r1 = Some c" "b1' = take 19 cs" "unread f1 = drop 19 cs"
      using scan_char_refill [OF cs] s1 refill(1) by auto
    have t: "two_streams f b1 b2 = c # shown r2 @ two_streams f2 b1' b2'"
      using s1 s2 x(1) by (subst two_streams.simps) (simp add: shown_def)
    have w: "weave (c # cs) = splice (c # take 19 cs) (take 20 (drop 19 cs)) @ weave (drop 39 cs)"
      by (subst weave.simps) (simp add: STREAM_BUF_def eval_nat_numeral)
    show ?thesis
    proof (cases "unread f1")
      case Nil
      then obtain f' where f': "scan_char f1 [] = (None, f', [])" "unread f' = []"
        using scan_char_eof [of f1] by blast
      then have "two_streams f2 b1' b2' = b1'" "r2 = None"
        using IH s2 refill x(1) by (auto simp: w0)
      then show ?thesis
        using t w Nil x refill cs by (simp add: shown_def w0)
    next
      case (Cons d ds)
      then have y: "r2 = Some d" "b2' = take 19 ds" "unread f2 = drop 19 ds"
        using scan_char_refill [OF Cons] s2 refill(2) by auto
      have full: "19 < length cs"
        using Cons x(3) by (metis drop_all list.distinct(1) not_le)
      have "length b1' = length b2' \<or> unread f2 = []"
        using Cons full by (auto simp: x y)
      then have "two_streams f2 b1' b2' = splice b1' b2' @ weave (drop 19 ds)"
        using IH x(1) y(3) by simp
      moreover have "drop 39 cs = drop 19 ds"
      proof -
        have "drop 20 (drop 19 cs) = drop 19 ds"
          using Cons x(3) by (simp del: drop_drop)
        then show ?thesis by simp
      qed
      moreover have "take 20 (drop 19 cs) = d # take 19 ds"
        using Cons x(3) by simp
      ultimately show ?thesis
        using t w x y refill cs by (simp add: shown_def)
    qed
  qed
qed

section \<open>2-1t.c\<close>

definition read_char :: "open_file option \<Rightarrow> (char \<times> open_file) option" where
  \<comment> \<open>\<open>read(fd, &c, 1) == 1\<close>\<close>
  "read_char fd =
     (case fd of
        None \<Rightarrow> None
      | Some f \<Rightarrow> (case sys_read 1 f of ([], _) \<Rightarrow> None | (c # _, f') \<Rightarrow> Some (c, f')))"

lemma read_char_cases:
  "unread f = [] \<Longrightarrow> read_char (Some f) = None"
  "unread f = c # cs \<Longrightarrow> \<exists>f'. read_char (Some f) = Some (c, f') \<and> unread f' = cs"
  using sys_read_pair [of 1 f] unread_read [of 1 f]
  by (auto simp: read_char_def split: prod.splits list.splits)

lemma read_char_progress:
  "read_char fd = Some (c, f') \<Longrightarrow> \<exists>f. fd = Some f \<and> length (unread f') < length (unread f)"
proof (cases fd)
  case None
  then show "read_char fd = Some (c, f') \<Longrightarrow> ?thesis" by (simp add: read_char_def)
next
  case (Some f)
  then show "read_char fd = Some (c, f') \<Longrightarrow> ?thesis"
    using read_char_cases [of f] by (cases "unread f") auto
qed

function alternate :: "open_file option \<Rightarrow> open_file option \<Rightarrow> char list" where
  "alternate fd1 fd2 =
     (case read_char fd1 of
        None \<Rightarrow> []
      | Some (c, f) \<Rightarrow>
          c # (case read_char fd2 of None \<Rightarrow> [] | Some (d, g) \<Rightarrow> d # alternate (Some f) (Some g)))"
  by auto
termination
  by (relation "measure (\<lambda>(fd1, fd2). case fd1 of None \<Rightarrow> 0 | Some f \<Rightarrow> length (unread f))")
     (auto dest!: read_char_progress)

declare alternate.simps [simp del]

lemma alternate_doubles:
  "unread f = unread g \<Longrightarrow> alternate (Some f) (Some g) = concat (map (\<lambda>c. [c, c]) (unread f))"
proof (induction "unread f" arbitrary: f g)
  case Nil
  then show ?case
    using read_char_cases(1) [of f] by (subst alternate.simps) simp
next
  case (Cons c cs)
  obtain f' where f': "read_char (Some f) = Some (c, f')" "unread f' = cs"
    using read_char_cases(2) [OF Cons(2) [symmetric]] by blast
  obtain g' where g': "read_char (Some g) = Some (c, g')" "unread g' = cs"
    using read_char_cases(2) [of g c cs] Cons(2,3) by auto
  show ?case
    using Cons(1) [of f' g'] f' g' by (subst alternate.simps) (simp flip: Cons(2))
qed

end
