(* ===== verification/Fd_Write.thy ===== *)
theory Fd_Write
  imports Fd_Read "HOL-Library.Multiset"
begin

text \<open>
  The writing programs of \<open>lab_05/src\<close>: \<open>3-write.c\<close> writes the alphabet to one file through two
  descriptors, odd character codes through the first and even ones through the second, and
  \<open>3-fprintf.c\<close> does the same through two buffered streams. The model keeps the content of the file, the
  offsets and the stream buffers, and the sizes \<open>print_stat\<close> prints. The inode number is left out. At
  the end come the properties of the readers and of the writers.
\<close>

section \<open>Files\<close>

definition overwrite :: "char list \<Rightarrow> nat \<Rightarrow> char list \<Rightarrow> char list" where
  \<comment> \<open>\<open>write\<close> at an offset: beyond the end the gap is filled with NUL\<close>
  "overwrite content off bs =
     take off (content @ replicate (off - length content) nul) @ bs @ drop (off + length bs) content"

definition alphabet :: "char list" where
  "alphabet = map char_of [97..<123 :: nat]"

definition odd_code :: "char \<Rightarrow> bool" where
  "odd_code c \<longleftrightarrow> (of_char c :: nat) mod 2 \<noteq> 0"

type_synonym stat_log = "(char list \<times> nat option) list" \<comment> \<open>the message and the size; \<open>None\<close>: uninitialised\<close>

section \<open>3-write.c\<close>

definition print_stat :: "char list \<Rightarrow> char list option \<Rightarrow> stat_log" where
  \<comment> \<open>the result of \<open>stat\<close> is not checked\<close>
  "print_stat msg q = [(msg, map_option length q)]"

text \<open>The state is the file and the two offsets; the file does not exist or both opens succeed.\<close>

definition write_char :: "(char list \<times> nat \<times> nat) option \<Rightarrow> char \<Rightarrow> (char list \<times> nat \<times> nat) option" where
  "write_char q c = map_option (\<lambda>(content, off1, off2).
     if odd_code c then (overwrite content off1 [c], off1 + 1, off2)
     else (overwrite content off2 [c], off1, off2 + 1)) q"

fun write_loop :: "(char list \<times> nat \<times> nat) option \<Rightarrow> char list \<Rightarrow> (char list \<times> nat \<times> nat) option \<times> stat_log" where
  "write_loop q [] = (q, [])"
| "write_loop q (c # cs) =
     (let q' = write_char q c in
      case write_loop q' cs of (r, l) \<Rightarrow> (r, print_stat ''write'' (map_option fst q') @ l))"

definition main_write :: "char list option \<Rightarrow> char list option \<times> stat_log" where
  \<comment> \<open>\<open>O_RDWR\<close> neither creates nor truncates the file\<close>
  "main_write q =
     (case write_loop (map_option (\<lambda>c. (c, 0, 0)) q) alphabet of
        (r, l) \<Rightarrow>
          let q' = map_option fst r in
          (q', print_stat ''open fd1'' q @ print_stat ''open fd2'' q @ l @
             print_stat ''close fd1'' q' @ print_stat ''close fd2'' q'))"

section \<open>3-fprintf.c\<close>

definition BUFSIZ :: nat where
  "BUFSIZ = 4096"

record out_stream =
  pending :: "char list"
  out_pos :: nat

definition flush :: "char list \<Rightarrow> out_stream \<Rightarrow> char list \<times> out_stream" where
  "flush content s =
     (overwrite content (out_pos s) (pending s), \<lparr>pending = [], out_pos = out_pos s + length (pending s)\<rparr>)"

definition put_char :: "char list \<Rightarrow> out_stream \<Rightarrow> char \<Rightarrow> char list \<times> out_stream" where
  \<comment> \<open>a full buffer is written first\<close>
  "put_char content s c =
     (case (if length (pending s) = BUFSIZ then flush content s else (content, s)) of
        (content', s') \<Rightarrow> (content', s'\<lparr>pending := pending s' @ [c]\<rparr>))"

fun fprintf_loop :: "char list \<times> out_stream \<times> out_stream \<Rightarrow> char list \<Rightarrow>
    (char list \<times> out_stream \<times> out_stream) \<times> stat_log" where
  "fprintf_loop st [] = (st, [])"
| "fprintf_loop (content, s1, s2) (c # cs) =
     (let st = (if odd_code c then (case put_char content s1 c of (q, s) \<Rightarrow> (q, s, s2))
                else (case put_char content s2 c of (q, s) \<Rightarrow> (q, s1, s))) in
      case fprintf_loop st cs of (r, l) \<Rightarrow> (r, print_stat ''fprintf'' (Some (fst st)) @ l))"

definition main_fprintf :: "bool \<Rightarrow> (char list \<times> stat_log) may_fault" where
  \<comment> \<open>\<open>fopen("w")\<close> truncates; if it fails \<open>fprintf\<close> gets NULL\<close>
  "main_fprintf can_open =
     (if \<not> can_open then Inl Null_Deref
      else
        let s0 = \<lparr>pending = [], out_pos = 0\<rparr> in
        case fprintf_loop ([], s0, s0) alphabet of
          ((content, s1, s2), l) \<Rightarrow>
            let q1 = fst (flush content s1); q2 = fst (flush q1 s2) in
            Inr (q2, print_stat ''fopen fs1'' (Some []) @ print_stat ''fopen fs2'' (Some []) @ l @
              print_stat ''fclose fs1'' (Some q1) @ print_stat ''fclose fs2'' (Some q2)))"

section \<open>What is left in the file\<close>

abbreviation odds :: "char list \<Rightarrow> char list" where
  "odds \<equiv> filter odd_code"

abbreviation evens :: "char list \<Rightarrow> char list" where
  "evens \<equiv> filter (\<lambda>c. \<not> odd_code c)"

definition joined :: "(char \<times> char) list \<Rightarrow> char list" where
  \<comment> \<open>a text that alternates between the two descriptors\<close>
  "joined ps = concat (map (\<lambda>(a, b). [a, b]) ps)"

lemma overwrite_next:
  "overwrite (E @ drop (length E) old) (length E) [c] = E @ c # drop (Suc (length E)) old"
  by (simp add: overwrite_def drop_Suc)

lemma overwrite_again:
  "overwrite (E @ c # drop (Suc (length E)) old) (length E) [d] = E @ d # drop (Suc (length E)) old"
  by (simp add: overwrite_def)

lemma write_loop_pairs:
  assumes "\<forall>(a, b) \<in> set ps. odd_code a \<and> \<not> odd_code b"
  shows "write_loop (Some (E @ drop (length E) old, length E, length E)) (joined ps) =
    (Some (E @ map snd ps @ drop (length E + length ps) old, length E + length ps, length E + length ps),
     concat (map (\<lambda>k. replicate 2 (''write'', Some (max (length E + k + 1) (length old)))) [0..<length ps]))"
  using assms
proof (induction ps arbitrary: E)
  case Nil
  then show ?case by (simp add: joined_def)
next
  case (Cons p ps)
  obtain a b where p: "p = (a, b)" by (cases p)
  have s: "map (\<lambda>k. f (length E + k + 1)) [0..<Suc n] = f (length E + 1) # map (\<lambda>k. f (length (E @ [b]) + k + 1)) [0..<n]"
    for f :: "nat \<Rightarrow> (char list \<times> nat option) list" and n
    by (simp add: map_upt_Suc del: upt_Suc)
  have l: "length (E @ c # drop (Suc (length E)) old) = max (length E + 1) (length old)" for c
    by (auto simp: max_def)
  have IH: "write_loop (Some (E @ b # drop (Suc (length E)) old, Suc (length E), Suc (length E))) (joined ps) =
    (Some (E @ b # map snd ps @ drop (Suc (length E) + length ps) old, Suc (length E) + length ps,
       Suc (length E) + length ps),
     concat (map (\<lambda>k. replicate 2 (''write'', Some (max (length (E @ [b]) + k + 1) (length old)))) [0..<length ps]))"
    using Cons.IH [of "E @ [b]"] Cons.prems by simp
  have "write_loop (Some (E @ drop (length E) old, length E, length E)) (a # b # joined ps) =
    (Some (E @ b # map snd ps @ drop (Suc (length E) + length ps) old, Suc (length E) + length ps,
       Suc (length E) + length ps),
     replicate 2 (''write'', Some (max (length E + 1) (length old))) @
     concat (map (\<lambda>k. replicate 2 (''write'', Some (max (length (E @ [b]) + k + 1) (length old)))) [0..<length ps]))"
    using Cons.prems IH l by (simp add: p write_char_def overwrite_next overwrite_again print_stat_def
        numeral_2_eq_2)
  moreover have "joined (p # ps) = a # b # joined ps" by (simp add: joined_def p)
  ultimately show ?case
    using s [of "\<lambda>k. replicate 2 (''write'', Some (max k (length old)))" "length ps"] by (simp add: p)
qed

lemma fprintf_loop_buffered:
  "length (pending s1) + length cs \<le> BUFSIZ \<Longrightarrow> length (pending s2) + length cs \<le> BUFSIZ \<Longrightarrow>
    fprintf_loop (content, s1, s2) cs =
      ((content, s1\<lparr>pending := pending s1 @ odds cs\<rparr>, s2\<lparr>pending := pending s2 @ evens cs\<rparr>),
       replicate (length cs) (''fprintf'', Some (length content)))"
  by (induction cs arbitrary: s1 s2) (simp_all add: put_char_def print_stat_def)

lemma alphabet_pairs:
  "\<exists>ps. alphabet = joined ps \<and> (\<forall>(a, b) \<in> set ps. odd_code a \<and> \<not> odd_code b) \<and> map snd ps = evens alphabet \<and>
     length ps = 13"
proof (intro exI conjI)
  let ?ps = "map (\<lambda>k. (char_of (97 + 2 * k), char_of (98 + 2 * k))) [0..<13 :: nat]"
  show "alphabet = joined ?ps" by code_simp
  show "\<forall>(a, b) \<in> set ?ps. odd_code a \<and> \<not> odd_code b" by code_simp
  show "map snd ?ps = evens alphabet" by code_simp
  show "length ?ps = 13" by simp
qed

lemma alphabet_parts: "length alphabet = 26" "length (odds alphabet) = 13" "length (evens alphabet) = 13"
  "evens alphabet = ''bdfhjlnprtvxz''" "odds alphabet = ''acegikmoqsuwy''"
  by code_simp+

section \<open>Properties\<close>

text \<open>
  C31: what the single-threaded readers print. Two buffered streams on one descriptor print, for every file, its
  20-byte blocks interleaved in pairs; two descriptors print every byte twice. A file that cannot be opened makes
  \<open>1.c\<close> dereference NULL and \<open>2-1t.c\<close> print nothing.
\<close>

theorem fd_readers:
  "main_1 (Some (fresh xs)) = Inr (weave xs) \<and>
   mset (weave xs) = mset xs \<and>
   alternate (Some (fresh xs)) (Some (fresh xs)) = concat (map (\<lambda>c. [c, c]) xs) \<and>
   main_1 None = Inl Null_Deref \<and> alternate None fd = [] \<and>
   main_1 (Some (fresh alphabet)) = Inr ''aubvcwdxeyfzghijklmnopqrst''"
proof -
  have w: "mset (weave xs) = mset xs" for xs
  proof (induction xs rule: weave.induct)
    case (1 xs)
    have "mset (splice ys zs) = mset ys + mset zs" for ys zs :: "char list"
      by (induction ys zs rule: splice.induct) auto
    moreover have "mset xs = mset (take 20 xs) + mset (take 20 (drop 20 xs)) + mset (drop 40 xs)"
      by (metis append_take_drop_id drop_drop mset_append add.assoc numeral_Bit0)
    ultimately show ?case
      using 1 by (subst weave.simps) (simp add: STREAM_BUF_def)
  qed
  moreover have "main_1 (Some (fresh ys)) = Inr (weave ys)" for ys
    by (simp add: main_1_def two_streams_weave)
  moreover have "weave alphabet = ''aubvcwdxeyfzghijklmnopqrst''"
    by code_simp
  ultimately show ?thesis
    using alternate_doubles [of "fresh xs" "fresh xs"] by (simp add: main_1_def alternate.simps [of None] read_char_def)
qed

text \<open>
  C32: what the writers leave behind. Both descriptors of \<open>3-write.c\<close> overwrite each other: the file ends
  with the even letters in front of what it held beyond 13 bytes, and the printed sizes never shrink. In
  \<open>3-fprintf.c\<close> nothing reaches the file before the first \<open>fclose\<close>; the second stream then overwrites
  the first. If \<open>q.txt\<close> is missing \<open>3-write.c\<close> prints 30 uninitialised sizes and \<open>3-fprintf.c\<close>, when it
  cannot create it, dereferences NULL.
\<close>

theorem fd_writers:
  "fst (main_write (Some old)) = Some (''bdfhjlnprtvxz'' @ drop 13 old) \<and>
   map snd (snd (main_write (Some old))) = replicate 2 (Some (length old)) @
     concat (map (\<lambda>k. replicate 2 (Some (max (k + 1) (length old)))) [0..<13]) @ replicate 2 (Some (max 13 (length old))) \<and>
   main_fprintf True = Inr (''bdfhjlnprtvxz'',
     replicate 1 (''fopen fs1'', Some 0) @ replicate 1 (''fopen fs2'', Some 0) @ replicate 26 (''fprintf'', Some 0) @
     [(''fclose fs1'', Some 13), (''fclose fs2'', Some 13)]) \<and>
   fst (main_write None) = None \<and> map snd (snd (main_write None)) = replicate 30 None \<and>
   main_fprintf False = Inl Null_Deref"
proof (intro conjI)
  obtain ps where ps: "alphabet = joined ps" "\<forall>(a, b) \<in> set ps. odd_code a \<and> \<not> odd_code b"
      "map snd ps = ''bdfhjlnprtvxz''" "length ps = 13"
    using alphabet_pairs alphabet_parts(4) by metis
  note w = write_loop_pairs [OF ps(2), of "[]" old, simplified, folded ps(1), unfolded ps(3,4)]
  show "fst (main_write (Some old)) = Some (''bdfhjlnprtvxz'' @ drop 13 old)"
    by (simp add: main_write_def w Let_def)
  show "map snd (snd (main_write (Some old))) = replicate 2 (Some (length old)) @
     concat (map (\<lambda>k. replicate 2 (Some (max (k + 1) (length old)))) [0..<13]) @ replicate 2 (Some (max 13 (length old)))"
    by (simp add: main_write_def w Let_def print_stat_def map_concat comp_def numeral_2_eq_2 del: upt_Suc upt_rec_numeral)
  have "write_loop None cs = (None, replicate (length cs) (''write'', None))" for cs
    by (induction cs) (simp_all add: write_char_def print_stat_def)
  then show "fst (main_write None) = None" "map snd (snd (main_write None)) = replicate 30 None"
    by (simp_all add: main_write_def Let_def print_stat_def alphabet_parts(1) eval_nat_numeral)
  show "main_fprintf True = Inr (''bdfhjlnprtvxz'',
     replicate 1 (''fopen fs1'', Some 0) @ replicate 1 (''fopen fs2'', Some 0) @ replicate 26 (''fprintf'', Some 0) @
     [(''fclose fs1'', Some 13), (''fclose fs2'', Some 13)])"
    using alphabet_parts fprintf_loop_buffered [of "\<lparr>pending = [], out_pos = 0\<rparr>" alphabet "\<lparr>pending = [], out_pos = 0\<rparr>" "[]"]
    by (simp add: main_fprintf_def BUFSIZ_def Let_def print_stat_def flush_def overwrite_def)
  show "main_fprintf False = Inl Null_Deref"
    by (simp add: main_fprintf_def)
qed

end
