(* ===== verification/Fd_Threads.thy ===== *)
theory Fd_Threads
  imports Fd_Read
begin

text \<open>
  The threaded readers of \<open>lab_05/src\<close>: two loops, each with its own open file, interleaved step by
  step. A byte of a variable that was never assigned is written as \<open>None\<close>. In \<open>2-2t-det.c\<close> the
  process ends when \<open>main\<close> returns; in the other three when both loops have ended. Whether the two
  calls of \<open>pthread_create\<close> succeed is a parameter; a failing one ends the process, whatever the thread that
  already runs has printed.
\<close>

section \<open>The loops\<close>

datatype loop_style = Thread_loop | Main_loop | Det_loop

datatype loop_phase = To_read | To_write bool | Ended

record reader =
  r_fd :: "open_file option"
  r_char :: "char option"
  r_phase :: loop_phase

definition reader_step :: "loop_style \<Rightarrow> reader \<Rightarrow> (char option list \<times> reader) option" where
  "reader_step style r =
     (case r_phase r of
        To_read \<Rightarrow>
          (case read_char (r_fd r) of
             Some (c, f) \<Rightarrow> Some ([], r\<lparr>r_fd := Some f, r_char := Some c, r_phase := To_write True\<rparr>)
           | None \<Rightarrow>
               if r_fd r = None \<and> style \<noteq> Main_loop
               then Some ([], r\<lparr>r_phase := To_write False\<rparr>) \<comment> \<open>\<open>read\<close> returned -1, which is not 0\<close>
               else Some ([], r\<lparr>r_phase := Ended\<rparr>))
      | To_write fl \<Rightarrow>
          Some ([r_char r], r\<lparr>r_phase := (if fl \<or> style = Det_loop then To_read else Ended)\<rparr>)
      | Ended \<Rightarrow> None)"

definition reader_start :: "open_file option \<Rightarrow> reader" where
  "reader_start fd = \<lparr>r_fd = fd, r_char = None, r_phase = To_read\<rparr>"

section \<open>The programs\<close>

datatype program = P_2_2t | P_2_2t_det | P_2_3t | P_2_3t_det

fun style0 :: "program \<Rightarrow> loop_style" where
  "style0 P_2_3t_det = Det_loop"
| "style0 _ = Thread_loop"

fun style1 :: "program \<Rightarrow> loop_style" where
  "style1 P_2_3t_det = Det_loop"
| "style1 P_2_3t = Thread_loop"
| "style1 _ = Main_loop"

datatype main_pc = Create0 | Create1 | Running | Aborted

record rd_sys =
  main_pc :: main_pc
  rd0 :: reader
  rd1 :: reader
  rd_out :: "char option list"

text \<open>In \<open>2-2t.c\<close> and \<open>2-2t-det.c\<close> the second loop is \<open>main\<close> itself.\<close>

fun main_step :: "program \<Rightarrow> bool \<times> bool \<Rightarrow> main_pc \<Rightarrow> main_pc option" where
  "main_step p (ok0, ok1) Create0 =
     Some (if \<not> ok0 then Aborted else if p = P_2_2t \<or> p = P_2_2t_det then Running else Create1)"
| "main_step p (ok0, ok1) Create1 = Some (if \<not> ok1 then Aborted else Running)"
| "main_step p _ _ = None"

definition ended :: "program \<Rightarrow> rd_sys \<Rightarrow> bool" where
  "ended p s \<longleftrightarrow> r_phase (rd1 s) = Ended \<and> (p = P_2_2t_det \<or> r_phase (rd0 s) = Ended)"

definition exited :: "program \<Rightarrow> rd_sys \<Rightarrow> bool" where
  "exited p s \<longleftrightarrow> main_pc s = Aborted \<or> main_pc s = Running \<and> ended p s"

inductive rd_step :: "program \<Rightarrow> bool \<times> bool \<Rightarrow> rd_sys \<Rightarrow> rd_sys \<Rightarrow> bool" for p c where
  main: "main_step p c (main_pc s) = Some pc \<Longrightarrow> rd_step p c s (s\<lparr>main_pc := pc\<rparr>)"
| first: "\<not> exited p s \<Longrightarrow> main_pc s \<noteq> Create0 \<Longrightarrow> reader_step (style0 p) (rd0 s) = Some (bs, r) \<Longrightarrow>
    rd_step p c s (s\<lparr>rd0 := r, rd_out := rd_out s @ bs\<rparr>)"
| second: "\<not> exited p s \<Longrightarrow> main_pc s = Running \<Longrightarrow> reader_step (style1 p) (rd1 s) = Some (bs, r) \<Longrightarrow>
    rd_step p c s (s\<lparr>rd1 := r, rd_out := rd_out s @ bs\<rparr>)"

definition rd_start :: "open_file option \<Rightarrow> open_file option \<Rightarrow> rd_sys \<Rightarrow> bool" where
  "rd_start fd1 fd2 s \<longleftrightarrow> s = \<lparr>main_pc = Create0, rd0 = reader_start fd1, rd1 = reader_start fd2, rd_out = []\<rparr>"

abbreviation rd_reach :: "program \<Rightarrow> bool \<times> bool \<Rightarrow> open_file option \<Rightarrow> open_file option \<Rightarrow> rd_sys \<Rightarrow> bool" where
  "rd_reach p c fd1 fd2 \<equiv> reach (rd_start fd1 fd2) (rd_step p c)"

section \<open>Every output is an interleaving\<close>

lemma shuffles_last_single: "ys @ [c] \<in> shuffles [c] ys"
  by (induction ys) (auto simp: Cons_in_shuffles_iff)

lemma shuffles_snoc1: "zs \<in> shuffles xs ys \<Longrightarrow> zs @ [c] \<in> shuffles (xs @ [c]) ys"
  by (induction xs ys arbitrary: zs rule: shuffles.induct)
     (auto simp: Cons_in_shuffles_iff shuffles_last_single)

lemma shuffles_snoc2: "zs \<in> shuffles xs ys \<Longrightarrow> zs @ [c] \<in> shuffles xs (ys @ [c])"
  using shuffles_snoc1 [of zs ys xs c] by (simp add: shuffles_commutes)

definition at_char :: "char list \<Rightarrow> nat \<Rightarrow> reader \<Rightarrow> bool" where
  \<comment> \<open>the reader has written the first \<open>k\<close> bytes\<close>
  "at_char xs k r \<longleftrightarrow> k \<le> length xs \<and> (\<exists>f. r_fd r = Some f \<and>
     (case r_phase r of
        To_read \<Rightarrow> unread f = drop k xs
      | To_write fl \<Rightarrow> fl \<and> k < length xs \<and> r_char r = Some (xs ! k) \<and> unread f = drop (Suc k) xs
      | Ended \<Rightarrow> k = length xs))"

lemma at_char_step:
  assumes "at_char xs k r" "reader_step style r = Some (bs, r')"
  shows "\<exists>k'. at_char xs k' r' \<and> map Some (take k' xs) = map Some (take k xs) @ bs"
proof (cases "r_phase r")
  case To_read
  then obtain f where f: "r_fd r = Some f" "unread f = drop k xs" "k \<le> length xs"
    using assms(1) by (auto simp: at_char_def)
  show ?thesis
  proof (cases "k < length xs")
    case True
    then have "unread f = xs ! k # drop (Suc k) xs" using f by (simp add: Cons_nth_drop_Suc)
    then show ?thesis
      using read_char_cases(2) [of f] assms(2) To_read f True
      by (intro exI [of _ k]) (auto simp: reader_step_def at_char_def)
  next
    case False
    then show ?thesis
      using read_char_cases(1) [of f] assms(2) To_read f
      by (intro exI [of _ k]) (auto simp: reader_step_def at_char_def)
  qed
next
  case (To_write fl)
  then show ?thesis
    using assms by (intro exI [of _ "Suc k"]) (auto simp: reader_step_def at_char_def take_Suc_conv_app_nth)
next
  case Ended
  then show ?thesis using assms(2) by (simp add: reader_step_def)
qed

definition rd_inv :: "char list \<Rightarrow> rd_sys \<Rightarrow> bool" where
  "rd_inv xs s \<longleftrightarrow> (\<exists>i j. at_char xs i (rd0 s) \<and> at_char xs j (rd1 s) \<and>
     rd_out s \<in> shuffles (map Some (take i xs)) (map Some (take j xs)))"

lemma shuffles_append1: "zs \<in> shuffles xs ys \<Longrightarrow> zs @ bs \<in> shuffles (xs @ bs) ys"
proof (induction bs rule: rev_induct)
  case Nil
  then show ?case by simp
next
  case (snoc b bs)
  then show ?case using shuffles_snoc1 [of "zs @ bs" "xs @ bs" ys b] by simp
qed

lemma shuffles_append2: "zs \<in> shuffles xs ys \<Longrightarrow> zs @ bs \<in> shuffles xs (ys @ bs)"
  using shuffles_append1 [of zs ys xs bs] by (simp add: shuffles_commutes)

lemma rd_inv_reach:
  assumes "rd_reach p c (Some (fresh xs)) (Some (fresh xs)) s"
  shows "rd_inv xs s"
  using assms
proof (rule reach_invariant)
  show "rd_inv xs s" if "rd_start (Some (fresh xs)) (Some (fresh xs)) s" for s
    using that by (auto simp: rd_start_def rd_inv_def reader_start_def at_char_def intro!: exI [of _ 0])
next
  fix s t
  assume "rd_inv xs s" "rd_step p c s t"
  then obtain i j where ij: "at_char xs i (rd0 s)" "at_char xs j (rd1 s)"
      "rd_out s \<in> shuffles (map Some (take i xs)) (map Some (take j xs))"
    by (auto simp: rd_inv_def)
  show "rd_inv xs t"
    using \<open>rd_step p c s t\<close>
  proof (cases rule: rd_step.cases)
    case (main pc)
    then show ?thesis using \<open>rd_inv xs s\<close> by (simp add: rd_inv_def)
  next
    case (first bs r)
    obtain k where "at_char xs k r" "map Some (take k xs) = map Some (take i xs) @ bs"
      using at_char_step [OF ij(1) first(4)] by blast
    then show ?thesis
      using first(1) ij shuffles_append1 [OF ij(3), of bs] unfolding rd_inv_def
      by (intro exI [of _ k] exI [of _ j]) simp
  next
    case (second bs r)
    obtain k where "at_char xs k r" "map Some (take k xs) = map Some (take j xs) @ bs"
      using at_char_step [OF ij(2) second(4)] by blast
    then show ?thesis
      using second(1) ij shuffles_append2 [OF ij(3), of bs] unfolding rd_inv_def
      by (intro exI [of _ i] exI [of _ k]) simp
  qed
qed

lemma at_char_ended: "at_char xs k r \<Longrightarrow> r_phase r = Ended \<Longrightarrow> k = length xs"
  by (auto simp: at_char_def)

section \<open>Every interleaving is an output\<close>

definition idle :: "char list \<Rightarrow> reader \<Rightarrow> bool" where
  "idle ys r \<longleftrightarrow> r_phase r = To_read \<and> (\<exists>f. r_fd r = Some f \<and> unread f = ys)"

lemma idle_char:
  assumes "idle (y # ys) r"
  obtains r1 r2 where "reader_step style r = Some ([], r1)" "reader_step style r1 = Some ([Some y], r2)" "idle ys r2"
proof -
  obtain f f' where "r_fd r = Some f" "read_char (Some f) = Some (y, f')" "unread f' = ys"
    using assms read_char_cases(2) by (fastforce simp: idle_def)
  then show thesis
    using that assms by (simp add: reader_step_def idle_def)
qed

lemma idle_end:
  assumes "idle [] r"
  obtains r1 where "reader_step style r = Some ([], r1)" "r_phase r1 = Ended"
  using assms read_char_cases(1) by (fastforce simp: idle_def reader_step_def)

lemma not_exited: "r_phase (rd1 s) \<noteq> Ended \<Longrightarrow> main_pc s \<noteq> Aborted \<Longrightarrow> \<not> exited p s"
  by (auto simp: exited_def ended_def)

lemma first2:
  assumes "rd_reach p c a b s" "idle (y # ys) (rd0 s)" "idle zs (rd1 s)" "main_pc s = Create1 \<or> main_pc s = Running"
  shows "\<exists>t. rd_reach p c a b t \<and> idle ys (rd0 t) \<and> idle zs (rd1 t) \<and> rd_out t = rd_out s @ [Some y] \<and>
    main_pc t = main_pc s"
proof -
  obtain r1 r2 where r: "reader_step (style0 p) (rd0 s) = Some ([], r1)"
      "reader_step (style0 p) r1 = Some ([Some y], r2)" "idle ys r2"
    using idle_char [OF assms(2)] by metis
  have n: "r_phase (rd1 s) \<noteq> Ended" "main_pc s \<noteq> Aborted" "main_pc s \<noteq> Create0"
    using assms(3,4) by (auto simp: idle_def)
  let ?s1 = "s\<lparr>rd0 := r1, rd_out := rd_out s @ []\<rparr>"
  have "rd_step p c s ?s1" using r(1) n by (intro rd_step.first not_exited)
  moreover have "rd_step p c ?s1 (?s1\<lparr>rd0 := r2, rd_out := rd_out ?s1 @ [Some y]\<rparr>)"
    using r(2) n by (intro rd_step.first not_exited) simp_all
  ultimately have "rd_reach p c a b (?s1\<lparr>rd0 := r2, rd_out := rd_out ?s1 @ [Some y]\<rparr>)"
    using assms(1) by (blast intro: reach_step)
  then show ?thesis using r(3) assms(3) by force
qed

lemma second2:
  assumes "rd_reach p c a b s" "idle (y # ys) (rd1 s)" "main_pc s = Running"
  shows "\<exists>t. rd_reach p c a b t \<and> rd0 t = rd0 s \<and> idle ys (rd1 t) \<and> rd_out t = rd_out s @ [Some y] \<and>
    main_pc t = Running"
proof -
  obtain r1 r2 where r: "reader_step (style1 p) (rd1 s) = Some ([], r1)"
      "reader_step (style1 p) r1 = Some ([Some y], r2)" "idle ys r2"
    using idle_char [OF assms(2)] by metis
  have n: "r_phase (rd1 s) \<noteq> Ended" "r_phase r1 \<noteq> Ended"
    using assms(2) r(2) by (auto simp: idle_def reader_step_def split: loop_phase.splits)
  let ?s1 = "s\<lparr>rd1 := r1, rd_out := rd_out s @ []\<rparr>"
  have "rd_step p c s ?s1" using r(1) n assms(3) by (intro rd_step.second not_exited) simp_all
  moreover have "rd_step p c ?s1 (?s1\<lparr>rd1 := r2, rd_out := rd_out ?s1 @ [Some y]\<rparr>)"
    using r(2) n assms(3) by (intro rd_step.second not_exited) simp_all
  ultimately have "rd_reach p c a b (?s1\<lparr>rd1 := r2, rd_out := rd_out ?s1 @ [Some y]\<rparr>)"
    using assms(1) by (blast intro: reach_step)
  then show ?thesis using r(3) assms(3) by force
qed

lemma realise:
  "zs \<in> shuffles xs ys \<Longrightarrow> rd_reach p c a b s \<Longrightarrow> main_pc s = Running \<Longrightarrow> idle (xs @ us) (rd0 s) \<Longrightarrow>
    idle (ys @ vs) (rd1 s) \<Longrightarrow>
    \<exists>t. rd_reach p c a b t \<and> main_pc t = Running \<and> idle us (rd0 t) \<and> idle vs (rd1 t) \<and>
      rd_out t = rd_out s @ map Some zs"
proof (induction zs arbitrary: xs ys s)
  case Nil
  then show ?case by auto
next
  case (Cons z zs)
  from Cons.prems(1) consider (left) xs' where "xs = z # xs'" "zs \<in> shuffles xs' ys"
    | (right) ys' where "ys = z # ys'" "zs \<in> shuffles xs ys'"
    by (auto simp: Cons_in_shuffles_iff neq_Nil_conv)
  then show ?case
  proof cases
    case left
    then obtain t where t: "rd_reach p c a b t" "main_pc t = Running" "idle (xs' @ us) (rd0 t)" "idle (ys @ vs) (rd1 t)"
        "rd_out t = rd_out s @ [Some z]"
      using first2 [OF Cons.prems(2), of z "xs' @ us" "ys @ vs"] Cons.prems(3-5) by auto
    then show ?thesis using Cons.IH [OF left(2) t(1-4)] by simp
  next
    case right
    then obtain t where t: "rd_reach p c a b t" "rd0 t = rd0 s" "idle (ys' @ vs) (rd1 t)"
        "rd_out t = rd_out s @ [Some z]" "main_pc t = Running"
      using second2 [OF Cons.prems(2), of z "ys' @ vs"] Cons.prems(3,5) by auto
    then show ?thesis using Cons.IH [OF right(2) t(1,5)] Cons.prems(4) by simp
  qed
qed

text \<open>One thread alone prints any prefix.\<close>

lemma realise_alone:
  "rd_reach p c a b s \<Longrightarrow> main_pc s = Create1 \<Longrightarrow> idle (xs @ us) (rd0 s) \<Longrightarrow> idle vs (rd1 s) \<Longrightarrow>
    \<exists>t. rd_reach p c a b t \<and> main_pc t = Create1 \<and> rd_out t = rd_out s @ map Some xs"
proof (induction xs arbitrary: s)
  case Nil
  then show ?case by auto
next
  case (Cons x xs)
  then obtain t where "rd_reach p c a b t" "idle (xs @ us) (rd0 t)" "idle vs (rd1 t)"
      "rd_out t = rd_out s @ [Some x]" "main_pc t = Create1"
    using first2 [OF Cons.prems(1), of x "xs @ us" vs] by auto
  then show ?case using Cons.IH by fastforce
qed

abbreviation both :: "char list \<Rightarrow> open_file option" where
  "both xs \<equiv> Some (fresh xs)"

definition start_sys :: "char list \<Rightarrow> rd_sys" where
  "start_sys xs = \<lparr>main_pc = Create0, rd0 = reader_start (both xs), rd1 = reader_start (both xs), rd_out = []\<rparr>"

lemma start_reach: "rd_reach p c (both xs) (both xs) (start_sys xs)"
  by (rule reach_start) (simp add: rd_start_def start_sys_def)

lemma idle_reader: "idle xs (reader_start (both xs))"
  by (simp add: idle_def reader_start_def)

lemma created:
  "p = P_2_3t \<or> p = P_2_3t_det \<Longrightarrow> rd_reach p (True, ok) (both xs) (both xs) (start_sys xs\<lparr>main_pc := Create1\<rparr>)"
  "rd_reach p (True, True) (both xs) (both xs) (start_sys xs\<lparr>main_pc := Running\<rparr>)"
proof -
  show 1: "rd_reach p (True, ok) (both xs) (both xs) (start_sys xs\<lparr>main_pc := Create1\<rparr>)"
    if "p = P_2_3t \<or> p = P_2_3t_det" for p ok
    using that by (intro reach_step [OF start_reach] rd_step.main) (auto simp: start_sys_def)
  have "rd_step p (True, True) (start_sys xs\<lparr>main_pc := Create1\<rparr>) (start_sys xs\<lparr>main_pc := Create1, main_pc := Running\<rparr>)"
    by (rule rd_step.main) simp
  then have 2: "rd_reach p (True, True) (both xs) (both xs) (start_sys xs\<lparr>main_pc := Running\<rparr>)"
    if "p = P_2_3t \<or> p = P_2_3t_det"
    using reach_step [OF 1 [OF that]] by simp
  show "rd_reach p (True, True) (both xs) (both xs) (start_sys xs\<lparr>main_pc := Running\<rparr>)"
  proof (cases "p = P_2_3t \<or> p = P_2_3t_det")
    case True
    then show ?thesis by (rule 2)
  next
    case False
    then have "p = P_2_2t \<or> p = P_2_2t_det" by (cases p) auto
    then have "rd_step p (True, True) (start_sys xs) (start_sys xs\<lparr>main_pc := Running\<rparr>)"
      by (intro rd_step.main) (auto simp: start_sys_def)
    then show ?thesis by (rule reach_step [OF start_reach])
  qed
qed

lemma finish_first:
  assumes "rd_reach p c a b s" "idle [] (rd0 s)" "idle zs (rd1 s)" "main_pc s = Running"
  shows "\<exists>t. rd_reach p c a b t \<and> r_phase (rd0 t) = Ended \<and> idle zs (rd1 t) \<and> rd_out t = rd_out s \<and> main_pc t = Running"
proof -
  obtain r where "reader_step (style0 p) (rd0 s) = Some ([], r)" "r_phase r = Ended"
    using idle_end [OF assms(2)] by metis
  moreover have "\<not> exited p s" using assms(3,4) by (simp add: idle_def not_exited)
  ultimately have "rd_step p c s (s\<lparr>rd0 := r, rd_out := rd_out s @ []\<rparr>)" "r_phase r = Ended"
    using assms(4) by (simp_all only: rd_step.first main_pc.distinct simp_thms)
  then show ?thesis
    using reach_step [OF assms(1)] assms(3,4) by fastforce
qed

lemma finish_second:
  assumes "rd_reach p c a b s" "idle [] (rd1 s)" "main_pc s = Running"
  shows "\<exists>t. rd_reach p c a b t \<and> rd0 t = rd0 s \<and> r_phase (rd1 t) = Ended \<and> rd_out t = rd_out s \<and> main_pc t = Running"
proof -
  obtain r where "reader_step (style1 p) (rd1 s) = Some ([], r)" "r_phase r = Ended"
    using idle_end [OF assms(2)] by metis
  moreover have "\<not> exited p s" using assms(2,3) by (simp add: idle_def not_exited)
  ultimately have "rd_step p c s (s\<lparr>rd1 := r, rd_out := rd_out s @ []\<rparr>)" "r_phase r = Ended"
    using assms(3) by (simp_all only: rd_step.second simp_thms)
  then show ?thesis
    using reach_step [OF assms(1)] assms(3) by fastforce
qed

definition outputs :: "program \<Rightarrow> bool \<times> bool \<Rightarrow> open_file option \<Rightarrow> open_file option \<Rightarrow> char option list set" where
  "outputs p c fd1 fd2 = {rd_out s | s. rd_reach p c fd1 fd2 s \<and> exited p s}"

lemma map_shuffles: "map f ` shuffles xs ys = shuffles (map f xs) (map f ys)"
proof (induction xs ys rule: shuffles.induct)
  case (3 x xs y ys)
  have "map f ` (#) z ` A = (#) (f z) ` map f ` A" for z A
    by (simp add: image_image)
  then show ?case using 3 by (simp add: image_Un del: image_image)
qed simp_all

lemma not_aborted:
  assumes "rd_reach p c a b s" "c = (True, True)"
  shows "main_pc s \<noteq> Aborted"
  using assms(1)
proof (rule reach_invariant)
  show "main_pc s \<noteq> Aborted" if "rd_start a b s" for s using that by (simp add: rd_start_def)
  show "main_pc t \<noteq> Aborted" if "main_pc s \<noteq> Aborted" "rd_step p c s t" for s t
    using that(2,1) assms(2) by (cases rule: rd_step.cases) (auto elim!: main_step.elims split: if_splits)
qed

lemma outputs_subset:
  assumes "zs \<in> outputs p (True, True) (both xs) (both xs)"
  shows "\<exists>k \<le> length xs. zs \<in> map Some ` shuffles (take k xs) xs \<and> (p = P_2_2t_det \<or> k = length xs)"
proof -
  obtain s where s: "rd_reach p (True, True) (both xs) (both xs) s" "exited p s" "zs = rd_out s"
    using assms by (auto simp: outputs_def)
  obtain i j where ij: "at_char xs i (rd0 s)" "at_char xs j (rd1 s)"
      "rd_out s \<in> shuffles (map Some (take i xs)) (map Some (take j xs))"
    using rd_inv_reach [OF s(1)] by (auto simp: rd_inv_def)
  have "r_phase (rd1 s) = Ended" "p = P_2_2t_det \<or> r_phase (rd0 s) = Ended"
    using s(2) not_aborted [OF s(1) refl] by (auto simp: exited_def ended_def)
  then have "j = length xs" "p = P_2_2t_det \<or> i = length xs" "i \<le> length xs"
    using at_char_ended ij(1,2) by (auto simp: at_char_def)
  then show ?thesis using ij(3) s(3) by (auto simp: map_shuffles)
qed

lemma outputs_join:
  assumes "p \<noteq> P_2_2t_det"
  shows "outputs p (True, True) (both xs) (both xs) = map Some ` shuffles xs xs"
proof
  show "outputs p (True, True) (both xs) (both xs) \<subseteq> map Some ` shuffles xs xs"
    using outputs_subset [where p = p and xs = xs] assms by fastforce
  show "map Some ` shuffles xs xs \<subseteq> outputs p (True, True) (both xs) (both xs)"
  proof
    fix ws assume "ws \<in> map Some ` shuffles xs xs"
    then obtain zs where z: "zs \<in> shuffles xs xs" "ws = map Some zs" by auto
    obtain t where t: "rd_reach p (True, True) (both xs) (both xs) t" "main_pc t = Running" "idle [] (rd0 t)"
        "idle [] (rd1 t)" "rd_out t = ws"
      using realise [OF z(1) created(2) [where p = p and xs = xs], where us = "[]" and vs = "[]"] idle_reader z(2) by (auto simp: start_sys_def)
    obtain u where u: "rd_reach p (True, True) (both xs) (both xs) u" "r_phase (rd0 u) = Ended" "idle [] (rd1 u)"
        "rd_out u = ws" "main_pc u = Running"
      using finish_first [OF t(1,3,4,2)] t(5) by auto
    obtain v where "rd_reach p (True, True) (both xs) (both xs) v" "rd0 v = rd0 u" "r_phase (rd1 v) = Ended"
        "rd_out v = ws" "main_pc v = Running"
      using finish_second [OF u(1,3,5)] u(4) by auto
    then show "ws \<in> outputs p (True, True) (both xs) (both xs)"
      using u(2) unfolding outputs_def by (force simp: exited_def ended_def)
  qed
qed

lemma outputs_detached:
  "outputs P_2_2t_det (True, True) (both xs) (both xs) = (\<Union>k \<le> length xs. map Some ` shuffles (take k xs) xs)"
proof
  show "outputs P_2_2t_det (True, True) (both xs) (both xs) \<subseteq> (\<Union>k \<le> length xs. map Some ` shuffles (take k xs) xs)"
    using outputs_subset [where p = P_2_2t_det and xs = xs] by blast
  show "(\<Union>k \<le> length xs. map Some ` shuffles (take k xs) xs) \<subseteq> outputs P_2_2t_det (True, True) (both xs) (both xs)"
  proof
    fix ws assume "ws \<in> (\<Union>k \<le> length xs. map Some ` shuffles (take k xs) xs)"
    then obtain k zs where z: "zs \<in> shuffles (take k xs) xs" "ws = map Some zs" by auto
    obtain t where t: "rd_reach P_2_2t_det (True, True) (both xs) (both xs) t" "main_pc t = Running" "idle [] (rd1 t)"
        "rd_out t = ws"
      using realise [OF z(1) created(2) [where p = P_2_2t_det and xs = xs], where us = "drop k xs" and vs = "[]"] idle_reader z(2)
      by (auto simp: start_sys_def)
    obtain v where "rd_reach P_2_2t_det (True, True) (both xs) (both xs) v" "r_phase (rd1 v) = Ended" "rd_out v = ws"
        "main_pc v = Running"
      using finish_second [OF t(1,3,2)] t(4) by auto
    then show "ws \<in> outputs P_2_2t_det (True, True) (both xs) (both xs)"
      unfolding outputs_def by (force simp: exited_def ended_def)
  qed
qed

section \<open>Thread creation that fails\<close>

text \<open>If the second thread cannot be created the first has printed some prefix.\<close>

definition alone_inv :: "char list \<Rightarrow> rd_sys \<Rightarrow> bool" where
  "alone_inv xs s \<longleftrightarrow> main_pc s \<noteq> Running \<and> (\<exists>k. at_char xs k (rd0 s) \<and> rd_out s = map Some (take k xs))"

lemma alone_reach:
  assumes "rd_reach p c (both xs) (both xs) s" "c = (True, False)" "p = P_2_3t \<or> p = P_2_3t_det"
  shows "alone_inv xs s"
  using assms(1)
proof (rule reach_invariant)
  show "alone_inv xs s" if "rd_start (both xs) (both xs) s" for s
    using that by (auto simp: alone_inv_def rd_start_def at_char_def reader_start_def intro!: exI [of _ 0])
  show "alone_inv xs t" if a: "alone_inv xs s" and "rd_step p c s t" for s t
    using that(2)
  proof (cases rule: rd_step.cases)
    case (main pc)
    have "pc \<noteq> Running"
      using main(2) assms(2,3) by (cases "main_pc s") (auto split: if_splits)
    then show ?thesis using a main(1) by (simp add: alone_inv_def)
  next
    case (first bs r)
    obtain k where k: "at_char xs k (rd0 s)" "rd_out s = map Some (take k xs)"
      using a by (auto simp: alone_inv_def)
    obtain k' where "at_char xs k' r" "map Some (take k' xs) = map Some (take k xs) @ bs"
      using at_char_step [OF k(1) first(4)] by blast
    then show ?thesis using a k(2) first(1) unfolding alone_inv_def by (auto intro!: exI [of _ k'])
  next
    case (second bs r)
    then show ?thesis using a by (simp add: alone_inv_def)
  qed
qed

lemma outputs_alone:
  assumes "p = P_2_3t \<or> p = P_2_3t_det"
  shows "outputs p (True, False) (both xs) (both xs) = (\<lambda>k. map Some (take k xs)) ` {..length xs}"
proof
  show "outputs p (True, False) (both xs) (both xs) \<subseteq> (\<lambda>k. map Some (take k xs)) ` {..length xs}"
    using alone_reach [OF _ refl assms] by (force simp: outputs_def alone_inv_def at_char_def)
  show "(\<lambda>k. map Some (take k xs)) ` {..length xs} \<subseteq> outputs p (True, False) (both xs) (both xs)"
  proof
    fix ws assume "ws \<in> (\<lambda>k. map Some (take k xs)) ` {..length xs}"
    then obtain k where k: "ws = map Some (take k xs)" by auto
    obtain t where t: "rd_reach p (True, False) (both xs) (both xs) t" "main_pc t = Create1" "rd_out t = ws"
      using realise_alone [OF created(1) [OF assms, where ok = False and xs = xs], where xs = "take k xs" and us = "drop k xs" and vs = xs] idle_reader k
      by (auto simp: start_sys_def)
    have "rd_step p (True, False) t (t\<lparr>main_pc := Aborted\<rparr>)"
      by (rule rd_step.main) (simp add: t(2))
    then have "rd_reach p (True, False) (both xs) (both xs) (t\<lparr>main_pc := Aborted\<rparr>)"
      using t(1) by (blast intro: reach_step)
    then show "ws \<in> outputs p (True, False) (both xs) (both xs)"
      using t(3) unfolding outputs_def by (intro CollectI exI [of _ "t\<lparr>main_pc := Aborted\<rparr>"]) (simp add: exited_def)
  qed
qed

section \<open>The runs end\<close>

fun reader_rank :: "reader \<Rightarrow> nat" where
  "reader_rank r = (let n = (case r_fd r of None \<Rightarrow> 0 | Some f \<Rightarrow> length (unread f)) in
     case r_phase r of To_read \<Rightarrow> 2 * n + 1 | To_write _ \<Rightarrow> 2 * n + 2 | Ended \<Rightarrow> 0)"

fun pc_rank :: "main_pc \<Rightarrow> nat" where
  "pc_rank Create0 = 2"
| "pc_rank Create1 = 1"
| "pc_rank _ = 0"

definition rd_rank :: "rd_sys \<Rightarrow> nat" where
  "rd_rank s = pc_rank (main_pc s) + reader_rank (rd0 s) + reader_rank (rd1 s)"

lemma reader_rank_step:
  assumes "r_fd r \<noteq> None" "reader_step style r = Some (bs, r')"
  shows "reader_rank r' < reader_rank r \<and> r_fd r' \<noteq> None"
  using assms by (auto simp: reader_step_def Let_def dest!: read_char_progress split: loop_phase.splits option.splits if_splits)

lemma reach_opened: "rd_reach p c (both xs) (both xs) s \<Longrightarrow> r_fd (rd0 s) \<noteq> None \<and> r_fd (rd1 s) \<noteq> None"
  using rd_inv_reach [where p = p and c = c and xs = xs and s = s] by (auto simp: rd_inv_def at_char_def)

lemma rd_step_rank:
  assumes "r_fd (rd0 s) \<noteq> None" "r_fd (rd1 s) \<noteq> None" "rd_step p c s t"
  shows "rd_rank t < rd_rank s"
  using assms(3)
proof (cases rule: rd_step.cases)
  case (main pc)
  then have "pc_rank pc < pc_rank (main_pc s)" by (cases c; cases "main_pc s") (auto split: if_splits)
  then show ?thesis unfolding main(1) rd_rank_def by (simp del: reader_rank.simps)
next
  case (first bs r)
  then show ?thesis using reader_rank_step [OF assms(1) first(4)] by (simp add: rd_rank_def del: reader_rank.simps)
next
  case (second bs r)
  then show ?thesis using reader_rank_step [OF assms(2) second(4)] by (simp add: rd_rank_def del: reader_rank.simps)
qed

lemma rd_wf: "wf {(t, s). rd_reach p c (both xs) (both xs) s \<and> rd_step p c s t}"
proof (rule wf_subset [OF wf_measure [of rd_rank]], clarify)
  fix s t
  assume "rd_reach p c (both xs) (both xs) s" "rd_step p c s t"
  then show "(t, s) \<in> measure rd_rank"
    using reach_opened rd_step_rank by simp
qed

lemma reader_can_step: "r_phase r \<noteq> Ended \<Longrightarrow> \<exists>bs r'. reader_step style r = Some (bs, r')"
  by (cases "r_phase r") (auto simp: reader_step_def split: option.splits)

lemma rd_progress: "exited p s \<or> (\<exists>t. rd_step p c s t)"
proof (cases "main_pc s")
  case Running
  show ?thesis
  proof (cases "exited p s")
    case False
    then have "r_phase (rd0 s) \<noteq> Ended \<or> r_phase (rd1 s) \<noteq> Ended"
      using Running by (auto simp: exited_def ended_def)
    then show ?thesis
    proof
      assume "r_phase (rd0 s) \<noteq> Ended"
      then obtain bs r where "reader_step (style0 p) (rd0 s) = Some (bs, r)" using reader_can_step by blast
      moreover have "main_pc s \<noteq> Create0" using Running by simp
      ultimately show ?thesis using rd_step.first [OF False] by blast
    next
      assume "r_phase (rd1 s) \<noteq> Ended"
      then obtain bs r where "reader_step (style1 p) (rd1 s) = Some (bs, r)" using reader_can_step by blast
      then show ?thesis using rd_step.second [OF False Running] by blast
    qed
  qed simp
next
  case Aborted
  then show ?thesis by (simp add: exited_def)
next
  case Create0
  then have "main_step p c (main_pc s) \<noteq> None" by (cases c) simp
  then show ?thesis by (auto intro: rd_step.main)
next
  case Create1
  then have "main_step p c (main_pc s) \<noteq> None" by (cases c) simp
  then show ?thesis by (auto intro: rd_step.main)
qed

section \<open>A file that cannot be opened\<close>

lemma det_never_ends:
  assumes "rd_reach P_2_3t_det c None fd s"
  shows "r_fd (rd0 s) = None \<and> r_phase (rd0 s) \<noteq> Ended"
  using assms
proof (rule reach_invariant)
  show "r_fd (rd0 s) = None \<and> r_phase (rd0 s) \<noteq> Ended" if "rd_start None fd s" for s
    using that by (simp add: rd_start_def reader_start_def)
  show "r_fd (rd0 t) = None \<and> r_phase (rd0 t) \<noteq> Ended"
    if "r_fd (rd0 s) = None \<and> r_phase (rd0 s) \<noteq> Ended" "rd_step P_2_3t_det c s t" for s t
    using that(2,1)
    by (cases rule: rd_step.cases) (auto simp: reader_step_def read_char_def split: loop_phase.splits)
qed

section \<open>Properties\<close>

text \<open>
  C6: what the threaded readers print. With both files open and both threads created every run ends, and the possible
  outputs of \<open>2-2t.c\<close>, \<open>2-3t.c\<close> and \<open>2-3t-det.c\<close> are exactly the interleavings of the
  file with itself; in \<open>2-2t-det.c\<close> they are the interleavings of the whole file with any prefix of it,
  because the detached thread dies with the process. If the second thread of \<open>2-3t.c\<close> cannot be created, exactly the
  prefixes of the file are possible. If the file cannot be opened \<open>2-3t-det.c\<close> never ends,
  since \<open>while (read(...))\<close> takes -1 for true.
\<close>

theorem fd_threads_outputs:
  "outputs P_2_2t (True, True) (both xs) (both xs) = map Some ` shuffles xs xs \<and>
   outputs P_2_3t (True, True) (both xs) (both xs) = map Some ` shuffles xs xs \<and>
   outputs P_2_3t_det (True, True) (both xs) (both xs) = map Some ` shuffles xs xs \<and>
   outputs P_2_2t_det (True, True) (both xs) (both xs) = (\<Union>k \<le> length xs. map Some ` shuffles (take k xs) xs) \<and>
   outputs P_2_3t (True, False) (both xs) (both xs) = (\<lambda>k. map Some (take k xs)) ` {..length xs} \<and>
   wf {(t, s). rd_reach p c (both xs) (both xs) s \<and> rd_step p c s t} \<and>
   (exited p s \<or> (\<exists>t. rd_step p c s t)) \<and>
   outputs P_2_3t_det (True, True) None fd = {}"
proof (intro conjI)
  show "outputs P_2_3t_det (True, True) None fd = {}"
    using det_never_ends [where fd = fd] not_aborted [OF _ refl] by (auto simp: outputs_def exited_def ended_def)
  show "outputs P_2_2t_det (True, True) (both xs) (both xs) = (\<Union>k \<le> length xs. map Some ` shuffles (take k xs) xs)"
    by (rule outputs_detached)
  show "outputs P_2_3t (True, False) (both xs) (both xs) = (\<lambda>k. map Some (take k xs)) ` {..length xs}"
    by (rule outputs_alone) simp
qed (rule outputs_join rd_wf rd_progress; simp)+

end
