(* ===== verification/Unix_Dgram.thy ===== *)
theory Unix_Dgram
  imports Printf
begin

text \<open>
  The datagram programs of \<open>lab_01/client-server-af-unix\<close>: the client sends its process id, the server
  of \<open>no-ans\<close> prints it, the one of \<open>with-ans\<close> also answers with the nanoseconds of its clock. Buffers keep
  stale bytes: the 64-byte message buffer, the 14 bytes of the client's address, and \<open>addrlen\<close>, which
  the programs never initialise. Kernel: a received address is cut to \<open>addrlen\<close>, which is then
  set to the true length; an \<open>addrlen\<close> with the top bit set is an error.
\<close>

section \<open>Server state and recvfrom\<close>

definition BUFF_SIZE :: nat where
  "BUFF_SIZE = 64"

definition SOCK_NAME :: "char list" where
  "SOCK_NAME = ''./server.s''"

definition SA_DATA_SIZE :: nat where
  "SA_DATA_SIZE = 14"

record us_state =
  us_buff :: "char list"
  us_caddr :: "char list" \<comment> \<open>\<open>client_addr.sa_data\<close>\<close>
  us_addrlen :: nat

record dgram =
  payload :: "char list"
  sender :: "char list option" \<comment> \<open>the name the sender is bound to\<close>
  nsec :: "int option" \<comment> \<open>the clock after the datagram; \<open>None\<close>: \<open>clock_gettime\<close> fails\<close>

datatype us_end = Listening | Ended int | Crashed fault

datatype us_act = Say "char list" | Reply "char list" "char list"

definition lay_over :: "char list \<Rightarrow> char list \<Rightarrow> char list" where
  "lay_over bs m = bs @ drop (length bs) m"

definition addr_bytes :: "char list option \<Rightarrow> char list" where
  \<comment> \<open>the path part of the sender's address\<close>
  "addr_bytes s = (case s of None \<Rightarrow> [] | Some name \<Rightarrow> name @ [nul])"

definition addr_len :: "char list option \<Rightarrow> nat" where
  "addr_len s = (case s of None \<Rightarrow> 0 | Some name \<Rightarrow> length name + 3)"

definition us_recv :: "us_state \<Rightarrow> dgram \<Rightarrow> us_end + us_state" where
  "us_recv st d =
     (if 2 ^ 31 \<le> us_addrlen st then Inl (Ended 1)
      else
        (case mem_put (us_caddr st) 0 (take (us_addrlen st - 2) (addr_bytes (sender d))) of
           Inl e \<Rightarrow> Inl (Crashed e)
         | Inr caddr \<Rightarrow> Inr \<lparr>us_buff = lay_over (take BUFF_SIZE (payload d)) (us_buff st),
             us_caddr = caddr, us_addrlen = addr_len (sender d)\<rparr>))"

section \<open>The servers\<close>

definition na_handle :: "us_state \<Rightarrow> dgram \<Rightarrow> us_act list \<times> (us_end + us_state)" where
  \<comment> \<open>the loop body of \<open>no-ans/server.c\<close>\<close>
  "na_handle st d =
     (case us_recv st d of
        Inl e \<Rightarrow> ([], Inl e)
      | Inr st' \<Rightarrow>
          (case c_string (us_buff st') 0 of
             Inl e \<Rightarrow> ([], Inl (Crashed e))
           | Inr s \<Rightarrow> ([Say (''received: '' @ s)], Inr st')))"


text \<open>
  What can happen while the loop runs: a datagram, a failing \<open>recvfrom\<close>, or SIGINT. The handler clears \<open>fl\<close>;
  when the signal arrives inside \<open>recvfrom\<close> the call is restarted and the loop ends after one more
  datagram, when it arrives between the receipt of a datagram and the loop test the loop ends at once.
\<close>

datatype us_event = Dgram dgram bool | Recv_fails | Sigint

definition catch :: us_act where
  "catch = Say ''catch sig 2''"

fun serve_loop ::
  "(us_state \<Rightarrow> dgram \<Rightarrow> us_act list \<times> (us_end + us_state)) \<Rightarrow> bool \<Rightarrow> bool \<Rightarrow> us_state \<Rightarrow> us_event list \<Rightarrow>
     us_act list \<times> us_end" where
  \<comment> \<open>\<open>unlink_ok\<close>, \<open>fl\<close>, the state and the events\<close>
  "serve_loop h unlink_ok fl st [] = ([], Listening)"
| "serve_loop h unlink_ok fl st (Sigint # es) =
     (case serve_loop h unlink_ok False st es of (as, r) \<Rightarrow> (catch # as, r))"
| "serve_loop h unlink_ok fl st (Recv_fails # es) = ([], Ended 1)"
| "serve_loop h unlink_ok fl st (Dgram d sig # es) =
     (case h st d of
        (as, Inl r) \<Rightarrow> (as, r)
      | (as, Inr st') \<Rightarrow>
          if fl \<and> \<not> sig then (case serve_loop h unlink_ok fl st' es of (bs, r) \<Rightarrow> (as @ bs, r))
          else (as @ (if sig then [catch] else []), Ended (if unlink_ok then 0 else 1)))"

record us_env =
  us_socket_ok :: bool
  us_signal_ok :: bool
  us_bind_ok :: bool
  us_unlink_ok :: bool
  us_sa_data :: "char list" \<comment> \<open>\<open>server_addr.sa_data\<close> before \<open>strcpy\<close>\<close>

definition us_main :: "(us_state \<Rightarrow> dgram \<Rightarrow> us_act list \<times> (us_end + us_state)) \<Rightarrow> us_env \<Rightarrow> us_state \<Rightarrow>
    us_event list \<Rightarrow> us_act list \<times> us_end" where
  "us_main h env st es =
     (if \<not> us_socket_ok env \<or> \<not> us_signal_ok env then ([], Ended 1)
      else
        (case c_strcpy (us_sa_data env) 0 SOCK_NAME of
           Inl e \<Rightarrow> ([], Crashed e)
         | Inr _ \<Rightarrow> if us_bind_ok env then serve_loop h (us_unlink_ok env) True st es else ([], Ended 1)))"

definition na_main :: "us_env \<Rightarrow> us_state \<Rightarrow> us_event list \<Rightarrow> us_act list \<times> us_end" where
  \<comment> \<open>\<open>no-ans/server.c\<close>\<close>
  "na_main = us_main na_handle"


section \<open>The clients\<close>

record cl_env =
  cl_socket_ok :: bool
  cl_bind_ok :: bool
  cl_sendto_ok :: bool
  cl_unlink_ok :: bool
  cl_addr :: "char list" \<comment> \<open>\<open>client_addr.sa_data\<close>, uninitialised\<close>
  cl_server_addr :: "char list"
  cl_buff :: "char list"
  cl_addrlen :: nat

definition na_client :: "cl_env \<Rightarrow> int \<Rightarrow> us_act list \<times> us_end" where
  \<comment> \<open>\<open>strlen(buffer)\<close> bytes are sent, without the NUL\<close>
  "na_client env pid =
     (if \<not> cl_socket_ok env then ([], Ended 1)
      else
        (case rbind (c_strcpy (cl_server_addr env) 0 SOCK_NAME) (\<lambda>_. c_strcpy (cl_buff env) 0 (dec_int pid)) of
           Inl e \<Rightarrow> ([], Crashed e)
         | Inr b \<Rightarrow>
             let s = Say (''send: '' @ cstr b 0) in
             if cl_sendto_ok env then ([s, Reply SOCK_NAME (cstr b 0)], Ended 0) else ([s], Ended 1)))"




section \<open>One datagram\<close>

definition us_wf :: "us_state \<Rightarrow> bool" where
  "us_wf st \<longleftrightarrow> length (us_buff st) = BUFF_SIZE \<and> length (us_caddr st) = SA_DATA_SIZE"

definition pid_ok :: "int \<Rightarrow> bool" where
  \<comment> \<open>the largest process id Linux gives out is 2 to the 22\<close>
  "pid_ok p \<longleftrightarrow> 0 < p \<and> p \<le> 4194304"

lemma dec_int_length: "0 \<le> i \<Longrightarrow> i < 10 ^ k \<Longrightarrow> 0 < k \<Longrightarrow> length (dec_int i) \<le> k"
  by (simp add: dec_int_def num_length_le nat_less_iff)

lemma pid_length: "pid_ok p \<Longrightarrow> length (dec_int p) \<le> 7"
  by (rule dec_int_length) (auto simp: pid_ok_def)



lemma c_strcpy_ok: "length s < length m \<Longrightarrow> c_strcpy m 0 s = Inr (s @ nul # drop (Suc (length s)) m)"
  by (simp add: c_strcpy_def mem_put_ok)

lemma cstr_lay_over: "nul_free d \<Longrightarrow> cstr (lay_over d b) 0 = d @ cstr b (length d)"
  by (auto simp: cstr_def lay_over_def takeWhile_append nul_free_def)

lemma terminated_lay_over: "nul_free d \<Longrightarrow> terminated (lay_over d b) 0 \<longleftrightarrow> terminated b (length d)"
  by (auto simp: terminated_def lay_over_def nul_free_def)







lemma us_main_serves:
  assumes "us_socket_ok env" "us_signal_ok env" "us_bind_ok env" "length (us_sa_data env) = SA_DATA_SIZE"
  shows "us_main h env st es = serve_loop h (us_unlink_ok env) True st es"
  using assms by (simp add: us_main_def c_strcpy_ok SOCK_NAME_def SA_DATA_SIZE_def)

definition cl_ok :: "cl_env \<Rightarrow> bool" where
  "cl_ok env \<longleftrightarrow> cl_socket_ok env \<and> cl_bind_ok env \<and> cl_sendto_ok env \<and> cl_unlink_ok env \<and>
     length (cl_addr env) = SA_DATA_SIZE \<and> length (cl_server_addr env) = SA_DATA_SIZE \<and>
     length (cl_buff env) = BUFF_SIZE \<and> cl_addrlen env < 2 ^ 31"


definition stale_state :: "char \<Rightarrow> nat \<Rightarrow> us_state" where
  "stale_state c a = \<lparr>us_buff = replicate 64 c, us_caddr = replicate 14 c, us_addrlen = a\<rparr>"

lemma dec_int_values: "dec_int 999 = ''999''" "dec_int 1000 = ''1000''" "dec_int 1 = ''1''" "dec_int 2 = ''2''"
  by (simp_all add: dec_int_def num_eval)



section \<open>Properties\<close>


definition plain_env :: us_env where
  "plain_env = \<lparr>us_socket_ok = True, us_signal_ok = True, us_bind_ok = True, us_unlink_ok = True,
     us_sa_data = replicate 14 CHR ''x''\<rparr>"

definition plain_client :: cl_env where
  "plain_client = \<lparr>cl_socket_ok = True, cl_bind_ok = True, cl_sendto_ok = True, cl_unlink_ok = True,
     cl_addr = replicate 14 CHR ''x'', cl_server_addr = replicate 14 CHR ''x'', cl_buff = replicate 64 CHR ''x'',
     cl_addrlen = 16\<rparr>"

lemma plain_env_ok: "us_socket_ok plain_env" "us_signal_ok plain_env" "us_bind_ok plain_env"
  "length (us_sa_data plain_env) = SA_DATA_SIZE" "cl_ok plain_client"
  "us_wf (stale_state c a)" "us_addrlen (stale_state c a) = a"
  by (simp_all add: plain_env_def plain_client_def cl_ok_def us_wf_def stale_state_def SA_DATA_SIZE_def BUFF_SIZE_def)


text \<open>The defects: a name that is longer than the one before, and datagrams without NUL.\<close>

lemma na_handle_pid:
  assumes "us_addrlen st < 2 ^ 31" "us_wf st" "pid_ok p"
  shows "na_handle st \<lparr>payload = dec_int p, sender = None, nsec = None\<rparr> =
    (if terminated (us_buff st) (length (dec_int p))
     then ([Say (''received: '' @ dec_int p @ cstr (us_buff st) (length (dec_int p)))],
           Inr \<lparr>us_buff = lay_over (dec_int p) (us_buff st), us_caddr = us_caddr st, us_addrlen = 0\<rparr>)
     else ([], Inl (Crashed Unterminated)))"
proof -
  have "take BUFF_SIZE (dec_int p) = dec_int p"
    using pid_length [OF assms(3)] by (simp add: BUFF_SIZE_def)
  then show ?thesis
    using assms(1) by (simp add: na_handle_def us_recv_def addr_bytes_def addr_len_def mem_put_ok
        c_string_def cstr_lay_over terminated_lay_over)
qed

lemma lay_over_stale:
  "length p \<le> length q \<Longrightarrow> nul_free q \<Longrightarrow>
     cstr (lay_over q (replicate n nul)) (length p) = drop (length p) q"
  by (cases "n \<le> length q")
     (auto simp: cstr_def lay_over_def takeWhile_append nul_free_def dest: in_set_dropD)

text \<open>
  C30: the server without answers prints stale digits. The client sends its process id without a NUL. Even on a buffer that
  starts with NULs only, an id with fewer digits than the one before it is printed with the last digits of
  that one behind it; equal or more digits are printed right. On a buffer without NUL the first print
  reads past its end.
\<close>

theorem us_stale_digits:
  assumes "pid_ok p" "pid_ok q" "a < 2 ^ 31" "c \<noteq> nul"
    and "us_socket_ok env" "us_signal_ok env" "us_bind_ok env" "length (us_sa_data env) = SA_DATA_SIZE"
  shows "na_main env (stale_state nul a)
      (map (\<lambda>p. Dgram \<lparr>payload = dec_int p, sender = None, nsec = None\<rparr> False) [p, q]) =
    ([Say (''received: '' @ dec_int p), Say (''received: '' @ dec_int q @ drop (length (dec_int q)) (dec_int p))],
     Listening) \<and>
    na_main env (stale_state c a) [Dgram \<lparr>payload = dec_int p, sender = None, nsec = None\<rparr> False] =
    ([], Crashed Unterminated)"
proof -
  let ?b = "replicate 64 nul"
  have l: "length (dec_int p) \<le> 7" "length (dec_int q) \<le> 7"
    using assms(1,2) pid_length by blast+
  have wf: "us_wf (stale_state x a)" for x
    by (simp add: us_wf_def stale_state_def BUFF_SIZE_def SA_DATA_SIZE_def)
  have "terminated ?b (length (dec_int p))" "cstr ?b (length (dec_int p)) = []"
    using l by (simp_all add: terminated_def cstr_def)
  then have 1: "na_handle (stale_state nul a) \<lparr>payload = dec_int p, sender = None, nsec = None\<rparr> =
      ([Say (''received: '' @ dec_int p)],
       Inr \<lparr>us_buff = lay_over (dec_int p) ?b, us_caddr = replicate 14 nul, us_addrlen = 0\<rparr>)"
    using na_handle_pid [OF _ wf assms(1), of nul] assms(3) by (simp add: stale_state_def)
  have "terminated (lay_over (dec_int p) ?b) (length (dec_int q))"
    using l by (simp add: terminated_def lay_over_def)
  moreover have "cstr (lay_over (dec_int p) ?b) (length (dec_int q)) = drop (length (dec_int q)) (dec_int p)"
  proof (cases "length (dec_int q) \<le> length (dec_int p)")
    case True
    then show ?thesis by (rule lay_over_stale) simp
  next
    case False
    then show ?thesis using l by (simp add: cstr_def lay_over_def)
  qed
  moreover have "us_wf \<lparr>us_buff = lay_over (dec_int p) ?b, us_caddr = replicate 14 nul, us_addrlen = 0\<rparr>"
    using l by (simp add: us_wf_def lay_over_def BUFF_SIZE_def SA_DATA_SIZE_def)
  ultimately have 2: "fst (na_handle \<lparr>us_buff = lay_over (dec_int p) ?b, us_caddr = replicate 14 nul, us_addrlen = 0\<rparr>
        \<lparr>payload = dec_int q, sender = None, nsec = None\<rparr>) =
      [Say (''received: '' @ dec_int q @ drop (length (dec_int q)) (dec_int p))] \<and>
      (\<exists>st. snd (na_handle \<lparr>us_buff = lay_over (dec_int p) ?b, us_caddr = replicate 14 nul, us_addrlen = 0\<rparr>
        \<lparr>payload = dec_int q, sender = None, nsec = None\<rparr>) = Inr st)"
    by (subst (1 2) na_handle_pid) (simp_all add: assms(2))
  have "\<not> terminated (replicate 64 c) (length (dec_int p))"
    using assms(4) by (simp add: terminated_def)
  then have 3: "na_handle (stale_state c a) \<lparr>payload = dec_int p, sender = None, nsec = None\<rparr> =
      ([], Inl (Crashed Unterminated))"
    using na_handle_pid [OF _ wf assms(1), of c] assms(3) by (simp add: stale_state_def)
  show ?thesis
    using 1 2 3 us_main_serves [OF assms(5-8)] by (auto simp: na_main_def split: prod.splits)
qed

theorem us_stale_digits_witness:
  "fst (na_main plain_env (stale_state nul 0)
      (map (\<lambda>p. Dgram \<lparr>payload = dec_int p, sender = None, nsec = None\<rparr> False) [1000, 999])) =
    [Say ''received: 1000'', Say ''received: 9990'']"
  using us_stale_digits [of 1000 999 0 "CHR ''x''" plain_env]
  by (simp add: plain_env_ok pid_ok_def dec_int_values)

end
