(* ===== verification/Socketpair.thy ===== *)
theory Socketpair
  imports Prelude
begin

text \<open>
  \<open>lab_01/socketpair/main.c\<close>: the parent forks three children one after the other; each child writes its
  message to the socket pair, the parent reads it and writes back a 64-byte block with the message and
  \<open>ok\<close>, the child reads one block. Every system call is one step of one process; the flag of a step
  says whether the call succeeds. The two directions of the pair are byte queues. A child starts
  with a copy of the parent's buffer. The process ids and the error texts in the output are left out.
\<close>

section \<open>State\<close>

definition messages :: "char list list" where
  "messages = [''aaa'', ''bbbbbbbb'', ''c'']"

definition N_KIDS :: nat where
  "N_KIDS = 3"

definition BLOCK :: nat where
  "BLOCK = 64"

datatype kid_phase = K_close1 | K_write | K_read | K_close0 | K_exit int | K_signal int

record kid =
  k_phase :: kid_phase
  k_buf :: "char list"

datatype par_phase = P_fork | P_read | P_write | P_close0 | P_close1 | P_wait nat | P_exit int | P_fault fault

datatype sp_event =
    Kid_sent nat "char list"
  | Kid_received nat "char list may_fault"
  | Parent_received "char list"
  | Parent_sent "char list may_fault"
  | Kid_exited nat int
  | Kid_signalled nat int

record sp_state =
  par :: par_phase
  idx :: nat
  kids :: "kid list"
  up :: "char list" \<comment> \<open>written to \<open>sockfd[0]\<close>, read from \<open>sockfd[1]\<close>\<close>
  down :: "char list"
  buf :: "char list"
  buf_rcv :: "char list"
  sp_log :: "sp_event list"

definition end1_open :: "sp_state \<Rightarrow> bool" where
  \<comment> \<open>some process still holds \<open>sockfd[1]\<close>\<close>
  "end1_open s \<longleftrightarrow> (case par s of P_wait _ \<Rightarrow> False | P_exit _ \<Rightarrow> False | P_fault _ \<Rightarrow> False | _ \<Rightarrow> True) \<or>
     list_ex (\<lambda>k. k_phase k = K_close1) (kids s)"

definition store :: "char list \<Rightarrow> char list \<Rightarrow> char list" where
  \<comment> \<open>\<open>read(fd, buf, 64)\<close>: the queue's first bytes over the buffer\<close>
  "store q b = take BLOCK q @ drop (length (take BLOCK q)) b"

section \<open>Steps\<close>

definition set_kid :: "nat \<Rightarrow> kid_phase \<Rightarrow> sp_state \<Rightarrow> sp_state" where
  "set_kid i ph s = s\<lparr>kids := (kids s)[i := (kids s ! i)\<lparr>k_phase := ph\<rparr>]\<rparr>"

definition logged :: "sp_event \<Rightarrow> sp_state \<Rightarrow> sp_state" where
  "logged e s = s\<lparr>sp_log := sp_log s @ [e]\<rparr>"

definition kid_do :: "nat \<Rightarrow> bool \<Rightarrow> sp_state \<Rightarrow> sp_state option" where
  "kid_do i ok s =
     (if length (kids s) \<le> i then None
      else
        (case k_phase (kids s ! i) of
           K_close1 \<Rightarrow> Some (set_kid i (if ok then K_write else K_exit 1) s)
         | K_write \<Rightarrow>
             if \<not> ok then Some (set_kid i (K_exit 1) s)
             else if \<not> end1_open s then Some (set_kid i (K_signal 13) s)
             else Some (logged (Kid_sent i (messages ! i)) (set_kid i K_read (s\<lparr>up := up s @ messages ! i @ [nul]\<rparr>)))
         | K_read \<Rightarrow>
             if \<not> ok then Some (set_kid i (K_exit 1) s)
             else if down s = [] \<and> end1_open s then None
             else
               let b = store (down s) (k_buf (kids s ! i)) in
               Some (logged (Kid_received i (c_string b 0)) (set_kid i K_close0 (s\<lparr>down := drop BLOCK (down s)\<rparr>)))
         | K_close0 \<Rightarrow> Some (set_kid i (K_exit (if ok then 0 else 1)) s)
         | _ \<Rightarrow> None))"

definition reap :: "nat \<Rightarrow> kid_phase \<Rightarrow> sp_state \<Rightarrow> sp_state option" where
  "reap k ph s =
     (let next = (if k + 1 < N_KIDS then P_wait (k + 1) else P_exit 0) in
      case ph of
        K_exit c \<Rightarrow> Some (logged (Kid_exited k c) (s\<lparr>par := next\<rparr>))
      | K_signal n \<Rightarrow> Some (logged (Kid_signalled k n) (s\<lparr>par := next\<rparr>))
      | _ \<Rightarrow> None)"

definition parent_do :: "bool \<Rightarrow> sp_state \<Rightarrow> sp_state option" where
  \<comment> \<open>the parent holds \<open>sockfd[0]\<close> itself while it reads, so it never sees the end of the stream\<close>
  "parent_do ok s =
     (case par s of
        P_wait k \<Rightarrow> reap k (k_phase (kids s ! k)) s
      | P_exit _ \<Rightarrow> None
      | P_fault _ \<Rightarrow> None
      | ph \<Rightarrow>
          if \<not> ok then Some (s\<lparr>par := P_exit 1\<rparr>)
          else
            (case ph of
               P_fork \<Rightarrow> Some (s\<lparr>kids := kids s @ [\<lparr>k_phase = K_close1, k_buf = buf s\<rparr>], par := P_read\<rparr>)
             | P_read \<Rightarrow>
                 if up s = [] then None
                 else
                   let b = store (up s) (buf s); s' = s\<lparr>up := drop BLOCK (up s), buf := b\<rparr> in
                   (case c_string b 0 of
                      Inl e \<Rightarrow> Some (s'\<lparr>par := P_fault e\<rparr>)
                    | Inr t \<Rightarrow>
                        (case c_strcpy (buf_rcv s) 0 (t @ ''ok'') of
                           Inl e \<Rightarrow> Some (s'\<lparr>par := P_fault e\<rparr>)
                         | Inr r \<Rightarrow> Some (logged (Parent_received t) (s'\<lparr>buf_rcv := r, par := P_write\<rparr>))))
             | P_write \<Rightarrow>
                 Some (logged (Parent_sent (c_string (buf_rcv s) 0))
                   (s\<lparr>down := down s @ buf_rcv s, idx := idx s + 1,
                      par := (if idx s + 1 < N_KIDS then P_fork else P_close0)\<rparr>))
             | P_close0 \<Rightarrow> Some (s\<lparr>par := P_close1\<rparr>)
             | _ \<Rightarrow> Some (s\<lparr>par := P_wait 0\<rparr>)))"

datatype sp_act = Parent bool | Kid nat bool

fun sp_do :: "sp_act \<Rightarrow> sp_state \<Rightarrow> sp_state option" where
  "sp_do (Parent ok) s = parent_do ok s"
| "sp_do (Kid i ok) s = kid_do i ok s"

fun sp_exec :: "sp_act list \<Rightarrow> sp_state \<Rightarrow> sp_state option" where
  "sp_exec [] s = Some s"
| "sp_exec (a # as) s = Option.bind (sp_do a s) (sp_exec as)"

text \<open>The buffers of the parent are uninitialised at the start.\<close>

definition sp_init :: "char list \<Rightarrow> char list \<Rightarrow> sp_state" where
  "sp_init b r = \<lparr>par = P_fork, idx = 0, kids = [], up = [], down = [], buf = b, buf_rcv = r, sp_log = []\<rparr>"

definition sp_start :: "sp_state \<Rightarrow> bool" where
  "sp_start s \<longleftrightarrow> (\<exists>b r. length b = BLOCK \<and> length r = BLOCK \<and> s = sp_init b r)"

inductive sp_step :: "sp_state \<Rightarrow> sp_state \<Rightarrow> bool" where
  parent: "parent_do True s = Some t \<Longrightarrow> sp_step s t"
| child: "kid_do i True s = Some t \<Longrightarrow> sp_step s t"

text \<open>What was received, in the order of time.\<close>

fun kid_got :: "sp_event list \<Rightarrow> (nat \<times> char list may_fault) list" where
  "kid_got [] = []"
| "kid_got (Kid_received i t # es) = (i, t) # kid_got es"
| "kid_got (_ # es) = kid_got es"

fun parent_got :: "sp_event list \<Rightarrow> char list list" where
  "parent_got [] = []"
| "parent_got (Parent_received t # es) = t # parent_got es"
| "parent_got (_ # es) = parent_got es"

definition reply :: "char list \<Rightarrow> char list" where
  "reply m = m @ ''ok''"

lemma got_append [simp]:
  "kid_got (es @ fs) = kid_got es @ kid_got fs"
  "parent_got (es @ fs) = parent_got es @ parent_got fs"
  by (induction es rule: kid_got.induct) simp_all

section \<open>Invariant\<close>

definition block_of :: "char list \<Rightarrow> char list \<Rightarrow> bool" where
  "block_of m b \<longleftrightarrow> length b = BLOCK \<and> c_string b 0 = Inr (reply m)"

definition past_write :: "kid \<Rightarrow> bool" where
  "past_write k \<longleftrightarrow> k_phase k = K_read \<or> k_phase k = K_close0 \<or> k_phase k = K_exit 0"

definition past_read :: "kid \<Rightarrow> bool" where
  "past_read k \<longleftrightarrow> k_phase k = K_close0 \<or> k_phase k = K_exit 0"

definition kid_fine :: "kid \<Rightarrow> bool" where
  "kid_fine k \<longleftrightarrow> k_phase k \<in> {K_close1, K_write, K_read, K_close0, K_exit 0} \<and> length (k_buf k) = BLOCK"

text \<open>The blocks in the queue and those already read are the replies so far, in order.\<close>

definition replies_inv :: "sp_state \<Rightarrow> bool" where
  "replies_inv s \<longleftrightarrow> (\<exists>bl. down s = concat bl \<and> list_all2 block_of (drop (length (kid_got (sp_log s))) (take (idx s) messages)) bl) \<and>
     map snd (kid_got (sp_log s)) = map (\<lambda>m. Inr (reply m)) (take (length (kid_got (sp_log s))) (take (idx s) messages)) \<and>
     length (kid_got (sp_log s)) \<le> idx s \<and>
     distinct (map fst (kid_got (sp_log s))) \<and>
     set (map fst (kid_got (sp_log s))) = {j. j < length (kids s) \<and> past_read (kids s ! j)}"

fun par_inv :: "par_phase \<Rightarrow> sp_state \<Rightarrow> bool" where
  "par_inv P_fork s \<longleftrightarrow> idx s < 3 \<and> length (kids s) = idx s \<and> up s = [] \<and> list_all past_write (kids s) \<and>
     parent_got (sp_log s) = take (idx s) messages"
| "par_inv P_read s \<longleftrightarrow> idx s < 3 \<and> length (kids s) = idx s + 1 \<and> list_all past_write (take (idx s) (kids s)) \<and>
     parent_got (sp_log s) = take (idx s) messages \<and>
     up s = (if past_write (kids s ! idx s) then messages ! idx s @ [nul] else [])"
| "par_inv P_write s \<longleftrightarrow> idx s < 3 \<and> length (kids s) = idx s + 1 \<and> up s = [] \<and> list_all past_write (kids s) \<and>
     parent_got (sp_log s) = take (idx s + 1) messages \<and> block_of (messages ! idx s) (buf_rcv s)"
| "par_inv (P_exit c) s \<longleftrightarrow> c = 0 \<and> idx s = 3 \<and> length (kids s) = 3 \<and> up s = [] \<and> list_all past_write (kids s) \<and>
     parent_got (sp_log s) = messages \<and> list_all (\<lambda>k. k_phase k = K_exit 0) (kids s)"
| "par_inv (P_wait k) s \<longleftrightarrow> idx s = 3 \<and> length (kids s) = 3 \<and> up s = [] \<and> list_all past_write (kids s) \<and>
     parent_got (sp_log s) = messages \<and> k < 3 \<and> list_all (\<lambda>k. k_phase k = K_exit 0) (take k (kids s))"
| "par_inv (P_fault e) s \<longleftrightarrow> False"
| "par_inv _ s \<longleftrightarrow> idx s = 3 \<and> length (kids s) = 3 \<and> up s = [] \<and> list_all past_write (kids s) \<and>
     parent_got (sp_log s) = messages"

definition sp_inv :: "sp_state \<Rightarrow> bool" where
  "sp_inv s \<longleftrightarrow> length (buf s) = BLOCK \<and> length (buf_rcv s) = BLOCK \<and> list_all kid_fine (kids s) \<and>
     par_inv (par s) s \<and> replies_inv s"

lemma sp_invI:
  "length (buf s) = BLOCK \<Longrightarrow> length (buf_rcv s) = BLOCK \<Longrightarrow> list_all kid_fine (kids s) \<Longrightarrow> par_inv (par s) s \<Longrightarrow>
    replies_inv s \<Longrightarrow> sp_inv s"
  by (simp add: sp_inv_def)

lemma sp_inv_par: "sp_inv s \<Longrightarrow> par_inv (par s) s"
  by (simp add: sp_inv_def)

lemma sp_inv_replies: "sp_inv s \<Longrightarrow> replies_inv s"
  by (simp add: sp_inv_def)

lemma messages_facts: "length messages = 3" "m \<in> set messages \<Longrightarrow> nul_free m \<and> length m \<le> 8"
  by (auto simp: messages_def)

lemma par_inv_kids:
  assumes "par_inv ph s" "length (kids t) = length (kids s)" "idx t = idx s" "up t = up s" "buf_rcv t = buf_rcv s"
    and "parent_got (sp_log t) = parent_got (sp_log s)"
    and "\<And>j. j < length (kids s) \<Longrightarrow> past_write (kids t ! j) = past_write (kids s ! j)"
    and "\<And>j. j < length (kids s) \<Longrightarrow> k_phase (kids s ! j) = K_exit 0 \<Longrightarrow> k_phase (kids t ! j) = K_exit 0"
  shows "par_inv ph t"
  using assms by (cases ph) (auto simp: list_all_length)

lemma replies_inv_kids:
  assumes "replies_inv s" "length (kids t) = length (kids s)" "idx t = idx s" "down t = down s"
    and "kid_got (sp_log t) = kid_got (sp_log s)"
    and "\<And>j. j < length (kids s) \<Longrightarrow> past_read (kids t ! j) = past_read (kids s ! j)"
  shows "replies_inv t"
proof -
  have "{j. j < length (kids t) \<and> past_read (kids t ! j)} = {j. j < length (kids s) \<and> past_read (kids s ! j)}"
    using assms(2,6) by auto
  then show ?thesis
    using assms(1,3-5) unfolding replies_inv_def by simp
qed

lemma set_kid_simps [simp]:
  "length (kids (set_kid i ph s)) = length (kids s)"
  "par (set_kid i ph s) = par s" "idx (set_kid i ph s) = idx s" "up (set_kid i ph s) = up s"
  "down (set_kid i ph s) = down s" "buf (set_kid i ph s) = buf s" "buf_rcv (set_kid i ph s) = buf_rcv s"
  "sp_log (set_kid i ph s) = sp_log s"
  "j < length (kids s) \<Longrightarrow> kids (set_kid i ph s) ! j = (if j = i then (kids s ! i)\<lparr>k_phase := ph\<rparr> else kids s ! j)"
  by (auto simp: set_kid_def nth_list_update)

lemma logged_simps [simp]:
  "kids (logged e s) = kids s" "par (logged e s) = par s" "idx (logged e s) = idx s" "up (logged e s) = up s"
  "down (logged e s) = down s" "buf (logged e s) = buf s" "buf_rcv (logged e s) = buf_rcv s"
  "sp_log (logged e s) = sp_log s @ [e]"
  by (simp_all add: logged_def)

lemma kid_fine_set:
  assumes "list_all kid_fine (kids s)" "ph \<in> {K_close1, K_write, K_read, K_close0, K_exit 0}"
  shows "list_all kid_fine (kids (set_kid i ph s))"
  using assms by (auto simp: list_all_length kid_fine_def)

text \<open>A step of a child that neither writes nor reads.\<close>

lemma quiet_kid:
  assumes "sp_inv s" "i < length (kids s)" "k_phase (kids s ! i) = K_close1 \<and> ph = K_write \<or>
      k_phase (kids s ! i) = K_close0 \<and> ph = K_exit 0"
  shows "sp_inv (set_kid i ph s)"
proof -
  have "par_inv (par s) (set_kid i ph s)"
    by (rule par_inv_kids [OF sp_inv_par [OF assms(1)]]) (use assms(2,3) in \<open>auto simp: past_write_def\<close>)
  moreover have "replies_inv (set_kid i ph s)"
    by (rule replies_inv_kids [OF sp_inv_replies [OF assms(1)]]) (use assms(2,3) in \<open>auto simp: past_read_def\<close>)
  ultimately show ?thesis
    using assms kid_fine_set [of s ph i] by (auto simp: sp_inv_def)
qed

lemma writer_is_last:
  assumes "sp_inv s" "i < length (kids s)" "\<not> past_write (kids s ! i)"
  shows "par s = P_read \<and> i = idx s"
proof -
  have "par_inv (par s) s" using assms(1) by (simp add: sp_inv_def)
  then show ?thesis
    using assms(2,3) by (cases "par s") (auto simp: list_all_length nth_take less_Suc_eq)
qed

lemma kid_writes:
  assumes "sp_inv s" "i < length (kids s)" "k_phase (kids s ! i) = K_write"
  shows "sp_inv (logged (Kid_sent i (messages ! i)) (set_kid i K_read (s\<lparr>up := up s @ messages ! i @ [nul]\<rparr>)))"
    (is "sp_inv ?t")
proof -
  have n: "\<not> past_write (kids s ! i)" using assms(3) by (simp add: past_write_def)
  note w = writer_is_last [OF assms(1,2) n]
  have p: "par_inv P_read s" using assms(1) w by (simp add: sp_inv_def)
  have "par_inv P_read ?t"
    using p n w by (auto simp: list_all_length past_write_def)
  moreover have "replies_inv ?t"
    by (rule replies_inv_kids [OF sp_inv_replies [OF assms(1)]]) (use assms(2,3) in \<open>auto simp: past_read_def\<close>)
  moreover have "list_all kid_fine (kids ?t)"
    using kid_fine_set [of "s\<lparr>up := up s @ messages ! i @ [nul]\<rparr>" K_read i] assms(1) by (simp add: sp_inv_def)
  moreover have "length (buf s) = BLOCK" "length (buf_rcv s) = BLOCK" using assms(1) by (simp_all add: sp_inv_def)
  ultimately show ?thesis unfolding sp_inv_def by (simp add: w del: par_inv.simps)
qed

text \<open>A child that waits for its reply finds one once the parent has written them all.\<close>

lemma replies_left:
  assumes "sp_inv s" "i < length (kids s)" "\<not> past_read (kids s ! i)" "length (kids s) \<le> idx s"
  shows "down s \<noteq> []"
proof -
  let ?g = "kid_got (sp_log s)"
  obtain bl where bl: "down s = concat bl" "list_all2 block_of (drop (length ?g) (take (idx s) messages)) bl"
    and d: "distinct (map fst ?g)" "set (map fst ?g) = {j. j < length (kids s) \<and> past_read (kids s ! j)}"
    using assms(1) by (auto simp: sp_inv_def replies_inv_def)
  have "set (map fst ?g) \<subset> {..<length (kids s)}" using d(2) assms(2,3) by auto
  then have "length ?g < length (kids s)"
    using psubset_card_mono [of "{..<length (kids s)}" "set (map fst ?g)"] distinct_card [OF d(1)] by simp
  moreover have "length (kids s) \<le> 3"
    using assms(1) by (cases "par s") (auto simp: sp_inv_def)
  ultimately have "drop (length ?g) (take (idx s) messages) \<noteq> []"
    using assms(4) by (simp add: messages_facts(1))
  then obtain m ms where "drop (length ?g) (take (idx s) messages) = m # ms"
    by (meson neq_Nil_conv)
  then obtain b bl' where "bl = b # bl'" "block_of m b"
    using bl(2) by (auto simp: list_all2_Cons1)
  then show ?thesis using bl(1) by (auto simp: block_of_def BLOCK_def)
qed

lemma kid_reads:
  assumes "sp_inv s" "i < length (kids s)" "k_phase (kids s ! i) = K_read" "down s \<noteq> []"
  shows "sp_inv (logged (Kid_received i (c_string (store (down s) (k_buf (kids s ! i))) 0))
      (set_kid i K_close0 (s\<lparr>down := drop BLOCK (down s)\<rparr>)))" (is "sp_inv ?t")
proof -
  let ?g = "kid_got (sp_log s)"
  obtain bl where bl: "down s = concat bl" "list_all2 block_of (drop (length ?g) (take (idx s) messages)) bl"
    and g: "map snd ?g = map (\<lambda>m. Inr (reply m)) (take (length ?g) (take (idx s) messages))"
      "distinct (map fst ?g)" "set (map fst ?g) = {j. j < length (kids s) \<and> past_read (kids s ! j)}"
    using assms(1) by (auto simp: sp_inv_def replies_inv_def)
  obtain b bl' where b: "bl = b # bl'" using bl(1) assms(4) by (cases bl) auto
  then obtain m ms where m: "drop (length ?g) (take (idx s) messages) = m # ms" "block_of m b" "list_all2 block_of ms bl'"
    using bl(2) by (auto simp: list_all2_Cons2)
  have l: "length ?g < length (take (idx s) messages)"
    using m(1) by (metis drop_all list.distinct(1) not_le)
  have mg: "take (idx s) messages ! length ?g = m"
    using m(1) l by (metis hd_drop_conv_nth list.sel(1))
  have ms: "drop (Suc (length ?g)) (take (idx s) messages) = ms"
    using m(1) by (metis drop_Suc list.sel(3) tl_drop)
  have kb: "length (k_buf (kids s ! i)) = BLOCK"
    using assms(1,2) by (simp add: sp_inv_def list_all_length kid_fine_def)
  have "store (down s) (k_buf (kids s ! i)) = b"
    using m(2) kb by (simp add: store_def bl(1) b block_of_def)
  then have c: "c_string (store (down s) (k_buf (kids s ! i))) 0 = Inr (reply m)"
    using m(2) by (simp add: block_of_def)
  have dn: "drop BLOCK (down s) = concat bl'"
    using m(2) by (simp add: bl(1) b block_of_def)
  have "replies_inv ?t"
    unfolding replies_inv_def
  proof (intro conjI)
    show "\<exists>bl. down ?t = concat bl \<and> list_all2 block_of (drop (length (kid_got (sp_log ?t))) (take (idx ?t) messages)) bl"
      using dn m(3) ms by (intro exI [of _ bl']) simp
    show "map snd (kid_got (sp_log ?t)) =
        map (\<lambda>m. Inr (reply m)) (take (length (kid_got (sp_log ?t))) (take (idx ?t) messages))"
      using g(1) l mg by (simp add: c take_Suc_conv_app_nth)
    show "length (kid_got (sp_log ?t)) \<le> idx ?t" using l by simp
    show "distinct (map fst (kid_got (sp_log ?t)))"
      using g(2,3) assms(3) by (auto simp: past_read_def)
    show "set (map fst (kid_got (sp_log ?t))) = {j. j < length (kids ?t) \<and> past_read (kids ?t ! j)}"
    proof -
      have "past_read (kids ?t ! j) \<longleftrightarrow> j = i \<or> past_read (kids s ! j)" if "j < length (kids s)" for j
        using that by (simp add: past_read_def)
      moreover have "set (map fst (kid_got (sp_log ?t))) = insert i (set (map fst ?g))" by simp
      moreover have "{j. j < length (kids s) \<and> (j = i \<or> past_read (kids s ! j))} =
          insert i {j. j < length (kids s) \<and> past_read (kids s ! j)}"
        using assms(2) by blast
      moreover have "length (kids ?t) = length (kids s)" by simp
      ultimately show ?thesis by (simp only: g(3) cong: conj_cong)
    qed
  qed
  moreover have "par_inv (par s) ?t"
    by (rule par_inv_kids [OF sp_inv_par [OF assms(1)]]) (use assms(2,3) in \<open>auto simp: past_write_def\<close>)
  moreover have "list_all kid_fine (kids ?t)"
    using kid_fine_set [of "s\<lparr>down := drop BLOCK (down s)\<rparr>" K_close0 i] assms(1) by (simp add: sp_inv_def)
  moreover have "length (buf s) = BLOCK" "length (buf_rcv s) = BLOCK" using assms(1) by (simp_all add: sp_inv_def)
  ultimately show ?thesis unfolding sp_inv_def by simp
qed

lemma end1_closed: "sp_inv s \<Longrightarrow> \<not> end1_open s \<Longrightarrow> idx s = 3 \<and> length (kids s) = 3"
  by (cases "par s") (auto simp: sp_inv_def end1_open_def)

lemma kid_step_inv:
  assumes "sp_inv s" "kid_do i True s = Some t"
  shows "sp_inv t"
proof -
  have i: "i < length (kids s)" using assms(2) by (auto simp: kid_do_def split: if_splits)
  have "kid_fine (kids s ! i)" using assms(1) i by (simp add: sp_inv_def list_all_length)
  then consider "k_phase (kids s ! i) = K_close1" | "k_phase (kids s ! i) = K_write" | "k_phase (kids s ! i) = K_read"
    | "k_phase (kids s ! i) = K_close0" | "k_phase (kids s ! i) = K_exit 0"
    by (auto simp: kid_fine_def)
  then show ?thesis
  proof cases
    case 2
    have "par s = P_read" using writer_is_last [OF assms(1) i] 2 by (simp add: past_write_def)
    then show ?thesis
      using assms i 2 kid_writes [OF assms(1) i 2] by (auto simp: kid_do_def end1_open_def)
  next
    case 3
    have "\<not> (down s = [] \<and> end1_open s)"
      using assms(2) i 3 by (auto simp: kid_do_def)
    moreover have "down s \<noteq> []" if "\<not> end1_open s"
      using replies_left [OF assms(1) i] end1_closed [OF assms(1) that] 3 by (simp add: past_read_def)
    ultimately have "down s \<noteq> []" by blast
    then show ?thesis
      using assms(2) i 3 kid_reads [OF assms(1) i 3] by (auto simp: kid_do_def Let_def)
  qed (use assms i quiet_kid [OF assms(1) i] in \<open>auto simp: kid_do_def\<close>)
qed

section \<open>Steps of the parent\<close>

lemma list_all_last: "length xs = Suc n \<Longrightarrow> list_all P xs \<longleftrightarrow> list_all P (take n xs) \<and> P (xs ! n)"
  by (metis take_Suc_conv_app_nth lessI take_all order_refl list_all_append list.pred_inject)

lemma fork_inv:
  assumes "sp_inv s" "par s = P_fork"
  shows "sp_inv (s\<lparr>kids := kids s @ [\<lparr>k_phase = K_close1, k_buf = buf s\<rparr>], par := P_read\<rparr>)" (is "sp_inv ?t")
proof -
  have p: "par_inv P_fork s" and f: "list_all kid_fine (kids s)" "length (buf s) = BLOCK" "length (buf_rcv s) = BLOCK"
    using assms by (simp_all add: sp_inv_def)
  have new: "\<not> past_write \<lparr>k_phase = K_close1, k_buf = buf s\<rparr>" "\<not> past_read \<lparr>k_phase = K_close1, k_buf = buf s\<rparr>"
    by (simp_all add: past_write_def past_read_def)
  have "{j. j < length (kids ?t) \<and> past_read (kids ?t ! j)} = {j. j < length (kids s) \<and> past_read (kids s ! j)}"
    using new(2) by (auto simp: nth_append less_Suc_eq)
  then have "replies_inv ?t"
    using assms(1) unfolding sp_inv_def replies_inv_def by simp
  moreover have "par_inv P_read ?t"
    using p new(1) by (simp add: nth_append)
  ultimately show ?thesis
    using f by (simp add: sp_inv_def kid_fine_def del: par_inv.simps)
qed

lemma read_message:
  assumes "nul_free m" "length m \<le> 8" "length b = BLOCK" "length r = BLOCK"
  shows "c_string (store (m @ [nul]) b) 0 = Inr m" "length (store (m @ [nul]) b) = BLOCK"
    "\<exists>r'. c_strcpy r 0 (m @ ''ok'') = Inr r' \<and> block_of m r'"
proof -
  have s: "store (m @ [nul]) b = m @ nul # drop (Suc (length m)) b"
    using assms(2) by (simp add: store_def BLOCK_def)
  show "c_string (store (m @ [nul]) b) 0 = Inr m"
    using assms(1) unfolding s by (simp add: c_string_def terminated_def cstr_prefix)
  show "length (store (m @ [nul]) b) = BLOCK"
    using assms(2,3) unfolding s by (simp add: BLOCK_def)
  have "nul_free (m @ ''ok'')" using assms(1) by simp
  from cstr_prefix [OF this, of "drop (length m + 3) r"]
  show "\<exists>r'. c_strcpy r 0 (m @ ''ok'') = Inr r' \<and> block_of m r'"
    using assms(2,4) by (simp add: c_strcpy_def mem_put_ok block_of_def BLOCK_def c_string_def terminated_def reply_def
        eval_nat_numeral)
qed

lemma read_inv:
  assumes "sp_inv s" "par s = P_read" "up s \<noteq> []"
  shows "\<exists>t. parent_do True s = Some t \<and> sp_inv t"
proof -
  let ?m = "messages ! idx s"
  have p: "par_inv P_read s" and f: "list_all kid_fine (kids s)" "length (buf s) = BLOCK" "length (buf_rcv s) = BLOCK"
    using assms by (simp_all add: sp_inv_def)
  then have u: "up s = ?m @ [nul]" "past_write (kids s ! idx s)" "idx s < 3"
    using assms(3) by (auto split: if_splits)
  then have m: "nul_free ?m" "length ?m \<le> 8"
    using messages_facts by (metis nth_mem)+
  note r = read_message [OF m f(2,3)]
  obtain r' where r': "c_strcpy (buf_rcv s) 0 (?m @ ''ok'') = Inr r'" "block_of ?m r'" using r(3) by blast
  let ?t = "logged (Parent_received ?m) (s\<lparr>up := drop BLOCK (up s), buf := store (up s) (buf s), buf_rcv := r', par := P_write\<rparr>)"
  have d: "drop BLOCK (up s) = []" using u(1) m(2) by (simp add: BLOCK_def)
  have "parent_do True s = Some ?t"
    using assms(2,3) r(1) r'(1) by (simp add: parent_do_def u(1) Let_def logged_def)
  moreover have "list_all past_write (kids s)"
    using p u(2) list_all_last [of "kids s" "idx s" past_write] by simp
  then have "par_inv P_write ?t"
    using p u(3) r'(2) d by (simp add: take_Suc_conv_app_nth messages_facts(1))
  moreover have "replies_inv ?t"
    by (rule replies_inv_kids [OF sp_inv_replies [OF assms(1)]]) simp_all
  moreover have "par ?t = P_write" "length (buf ?t) = BLOCK" "length (buf_rcv ?t) = BLOCK" "list_all kid_fine (kids ?t)"
    using f r(2) r'(2) by (simp_all add: u(1) block_of_def)
  ultimately have "sp_inv ?t" by (intro sp_invI) (simp_all only:)
  with \<open>parent_do True s = Some ?t\<close> show ?thesis by blast
qed

lemma write_inv:
  assumes "sp_inv s" "par s = P_write"
  shows "sp_inv (logged (Parent_sent e) (s\<lparr>down := down s @ buf_rcv s, idx := idx s + 1,
      par := (if idx s + 1 < N_KIDS then P_fork else P_close0)\<rparr>))" (is "sp_inv ?t")
proof -
  let ?g = "kid_got (sp_log s)"
  have p: "par_inv P_write s" and f: "list_all kid_fine (kids s)" "length (buf s) = BLOCK" "length (buf_rcv s) = BLOCK"
    and rp: "replies_inv s"
    using assms by (simp_all add: sp_inv_def)
  then have l: "length ?g \<le> idx s" "idx s < length messages" by (simp_all add: replies_inv_def messages_facts(1))
  then have d: "drop (length ?g) (take (Suc (idx s)) messages) = drop (length ?g) (take (idx s) messages) @ [messages ! idx s]"
    "take (length ?g) (take (Suc (idx s)) messages) = take (length ?g) (take (idx s) messages)"
    by (simp_all add: take_Suc_conv_app_nth min_def)
  obtain bl where bl: "down s = concat bl" "list_all2 block_of (drop (length ?g) (take (idx s) messages)) bl"
    using rp by (auto simp: replies_inv_def)
  have "\<exists>bl. down ?t = concat bl \<and> list_all2 block_of (drop (length ?g) (take (Suc (idx s)) messages)) bl"
    using bl p by (intro exI [of _ "bl @ [buf_rcv s]"]) (simp add: d(1) list_all2_appendI)
  then have "replies_inv ?t"
    using rp l(1) unfolding replies_inv_def by (simp add: d(2))
  moreover have "par_inv (par ?t) ?t"
    using p by (auto simp: N_KIDS_def messages_facts(1))
  ultimately show ?thesis
    using f by (simp add: sp_inv_def del: par_inv.simps)
qed

lemma reap_inv:
  assumes "sp_inv s" "par s = P_wait k" "reap k (k_phase (kids s ! k)) s = Some t"
  shows "sp_inv t"
proof -
  have p: "par_inv (P_wait k) s" and f: "list_all kid_fine (kids s)"
    using assms(1,2) by (simp_all add: sp_inv_def)
  then have k: "k < 3" "length (kids s) = 3" "kid_fine (kids s ! k)"
    by (simp_all add: list_all_length)
  then have e: "k_phase (kids s ! k) = K_exit 0"
    using assms(3) by (auto simp: reap_def kid_fine_def Let_def)
  then have t: "t = logged (Kid_exited k 0) (s\<lparr>par := (if k + 1 < N_KIDS then P_wait (k + 1) else P_exit 0)\<rparr>)"
    using assms(3) by (simp add: reap_def Let_def)
  have a: "list_all (\<lambda>k. k_phase k = K_exit 0) (take (Suc k) (kids s))"
    using p e k by (simp add: take_Suc_conv_app_nth)
  have "par_inv (par t) t"
  proof (cases "k + 1 < N_KIDS")
    case True
    then show ?thesis using p a by (simp add: t N_KIDS_def)
  next
    case False
    then have "Suc k = length (kids s)" using k by (simp add: N_KIDS_def)
    then show ?thesis using p a k False by (simp add: t)
  qed
  moreover have "replies_inv t"
    by (rule replies_inv_kids [OF sp_inv_replies [OF assms(1)]]) (simp_all add: t)
  moreover have "length (buf t) = BLOCK" "length (buf_rcv t) = BLOCK" "list_all kid_fine (kids t)"
    using assms(1) by (simp_all add: sp_inv_def t)
  ultimately show ?thesis by (intro sp_invI)
qed

lemma parent_step_inv:
  assumes "sp_inv s" "parent_do True s = Some t"
  shows "sp_inv t"
proof (cases "par s")
  case P_fork
  then show ?thesis using assms(2) fork_inv [OF assms(1)] by (auto simp: parent_do_def)
next
  case P_read
  moreover have "up s \<noteq> []" using assms(2) P_read by (auto simp: parent_do_def)
  ultimately show ?thesis using assms(2) read_inv [OF assms(1)] by auto
next
  case P_write
  then show ?thesis using assms(2) write_inv [OF assms(1)] by (auto simp: parent_do_def)
next
  case (P_wait k)
  then show ?thesis using assms(2) reap_inv [OF assms(1)] by (auto simp: parent_do_def)
next
  case P_close0
  then have "t = s\<lparr>par := P_close1\<rparr>" using assms(2) by (auto simp: parent_do_def)
  then show ?thesis using assms(1) P_close0 by (auto simp: sp_inv_def elim: replies_inv_kids)
next
  case P_close1
  then have "t = s\<lparr>par := P_wait 0\<rparr>" using assms(2) by (auto simp: parent_do_def)
  then show ?thesis using assms(1) P_close1 by (auto simp: sp_inv_def elim: replies_inv_kids)
qed (use assms(2) in \<open>auto simp: parent_do_def\<close>)

lemma sp_inv_reach: "reach sp_start sp_step s \<Longrightarrow> sp_inv s"
proof (erule reach_invariant)
  show "sp_inv s" if "sp_start s" for s
    using that by (auto simp: sp_start_def sp_init_def sp_inv_def replies_inv_def)
  show "sp_inv t" if "sp_inv s" "sp_step s t" for s t
    using that(2,1) by (cases rule: sp_step.cases) (auto intro: parent_step_inv kid_step_inv)
qed

section \<open>Progress and termination\<close>

lemma kid_enabled:
  assumes "sp_inv s" "i < length (kids s)" "k_phase (kids s ! i) \<noteq> K_exit 0"
    and "k_phase (kids s ! i) = K_read \<longrightarrow> down s \<noteq> []"
  shows "\<exists>t. sp_step s t"
proof -
  have "kid_fine (kids s ! i)" using assms(1,2) by (simp add: sp_inv_def list_all_length)
  then have "\<exists>t. kid_do i True s = Some t"
    using assms(2-4) by (auto simp: kid_fine_def kid_do_def Let_def)
  then show ?thesis by (blast intro: sp_step.child)
qed

lemma sp_progress:
  assumes "sp_inv s"
  shows "par s = P_exit 0 \<or> (\<exists>t. sp_step s t)"
proof (cases "par s")
  case P_read
  then have p: "par_inv P_read s" using sp_inv_par [OF assms] by simp
  show ?thesis
  proof (cases "past_write (kids s ! idx s)")
    case True
    then obtain t where "parent_do True s = Some t"
      using read_inv [OF assms P_read] p by auto
    then show ?thesis by (blast intro: sp_step.parent)
  next
    case False
    then show ?thesis
      using kid_enabled [OF assms, of "idx s"] p by (auto simp: past_write_def)
  qed
next
  case (P_wait k)
  then have p: "par_inv (P_wait k) s" using sp_inv_par [OF assms] by simp
  show ?thesis
  proof (cases "k_phase (kids s ! k) = K_exit 0")
    case True
    then have "parent_do True s \<noteq> None"
      using P_wait by (simp add: parent_do_def reap_def Let_def)
    then show ?thesis by (auto intro: sp_step.parent)
  next
    case False
    have "k_phase (kids s ! k) = K_read \<longrightarrow> down s \<noteq> []"
      using replies_left [OF assms, of k] p by (auto simp: past_read_def)
    then show ?thesis
      using kid_enabled [OF assms _ False] p by simp
  qed
next
  case (P_exit c)
  then show ?thesis using sp_inv_par [OF assms] by simp
next
  case (P_fault e)
  then show ?thesis using sp_inv_par [OF assms] by simp
qed (auto intro!: sp_step.parent simp: parent_do_def)

fun kid_rank :: "kid_phase \<Rightarrow> nat" where
  "kid_rank K_close1 = 4"
| "kid_rank K_write = 3"
| "kid_rank K_read = 2"
| "kid_rank K_close0 = 1"
| "kid_rank _ = 0"

fun par_rank :: "par_phase \<Rightarrow> nat \<Rightarrow> nat" where
  "par_rank P_fork n = 20 * (3 - n) + 16"
| "par_rank P_read n = 20 * (3 - n) + 9"
| "par_rank P_write n = 20 * (3 - n) + 8"
| "par_rank P_close0 n = 7"
| "par_rank P_close1 n = 6"
| "par_rank (P_wait k) n = 5 - k"
| "par_rank _ n = 0"

definition sp_rank :: "sp_state \<Rightarrow> nat" where
  "sp_rank s = par_rank (par s) (idx s) + (\<Sum>k\<leftarrow>kids s. kid_rank (k_phase k))"

lemma sum_list_update_less:
  "i < length xs \<Longrightarrow> f y < (f (xs ! i) :: nat) \<Longrightarrow> (\<Sum>x\<leftarrow>xs[i := y]. f x) < (\<Sum>x\<leftarrow>xs. f x)"
proof (induction xs arbitrary: i)
  case (Cons x xs)
  then show ?case by (cases i) auto
qed simp

lemma kid_step_rank:
  assumes "kid_do i True s = Some t"
  shows "sp_rank t < sp_rank s"
proof -
  have i: "i < length (kids s)" using assms by (auto simp: kid_do_def split: if_splits)
  have "par t = par s \<and> idx t = idx s \<and> (\<exists>ph. kids t = (kids s)[i := (kids s ! i)\<lparr>k_phase := ph\<rparr>] \<and>
      kid_rank ph < kid_rank (k_phase (kids s ! i)))"
    using assms i by (cases "k_phase (kids s ! i)") (auto simp: kid_do_def set_kid_def logged_def Let_def split: if_splits)
  then show ?thesis
    using sum_list_update_less [OF i] by (auto simp: sp_rank_def)
qed

lemma parent_step_rank:
  assumes "sp_inv s" "parent_do True s = Some t"
  shows "sp_rank t < sp_rank s"
proof (cases "par s")
  case P_read
  have "\<exists>t. parent_do True s = Some t \<and> par t = P_write \<and> idx t = idx s \<and> kids t = kids s"
    if "parent_do True s \<noteq> None" "sp_inv t" "parent_do True s = Some t"
    using that P_read sp_inv_par [of t]
    by (auto simp: parent_do_def logged_def Let_def split: if_splits sum.splits)
  then show ?thesis
    using assms P_read parent_step_inv [OF assms] by (auto simp: sp_rank_def)
next
  case (P_wait k)
  then have "kids t = kids s" "idx t = idx s" "k < 3" "par t = (if k + 1 < 3 then P_wait (k + 1) else P_exit 0)"
    using assms(2) sp_inv_par [OF assms(1)]
    by (auto simp: parent_do_def reap_def logged_def Let_def N_KIDS_def split: kid_phase.splits if_splits)
  then show ?thesis using P_wait by (auto simp: sp_rank_def)
next
  case P_write
  then have "idx s < 3" using sp_inv_par [OF assms(1)] by simp
  then show ?thesis using P_write assms(2) by (auto simp: parent_do_def logged_def sp_rank_def N_KIDS_def)
next
  case P_fork
  then show ?thesis using assms(2) by (auto simp: parent_do_def sp_rank_def)
next
  case P_close0
  then show ?thesis using assms(2) by (auto simp: parent_do_def sp_rank_def)
next
  case P_close1
  then show ?thesis using assms(2) by (auto simp: parent_do_def sp_rank_def)
qed (use assms(2) in \<open>auto simp: parent_do_def\<close>)

lemma sp_wf: "wf {(t, s). reach sp_start sp_step s \<and> sp_step s t}"
proof (rule wf_subset [OF wf_measure [of sp_rank]], clarify)
  fix s t
  assume "reach sp_start sp_step s" "sp_step s t"
  then show "(t, s) \<in> measure sp_rank"
    using parent_step_rank [OF sp_inv_reach] kid_step_rank by (auto elim!: sp_step.cases)
qed

section \<open>Runs\<close>

lemma sp_final:
  assumes "sp_inv s" "par s = P_exit 0"
  shows "parent_got (sp_log s) = messages \<and> map snd (kid_got (sp_log s)) = map (\<lambda>m. Inr (reply m)) messages \<and>
    distinct (map fst (kid_got (sp_log s))) \<and> set (map fst (kid_got (sp_log s))) = {0, 1, 2}"
proof -
  let ?g = "kid_got (sp_log s)"
  have p: "idx s = 3" "length (kids s) = 3" "parent_got (sp_log s) = messages" "\<forall>j < 3. past_read (kids s ! j)"
    using sp_inv_par [OF assms(1)] assms(2) by (auto simp: list_all_length past_read_def)
  have r: "distinct (map fst ?g)" "set (map fst ?g) = {j. j < length (kids s) \<and> past_read (kids s ! j)}"
    "map snd ?g = map (\<lambda>m. Inr (reply m)) (take (length ?g) (take (idx s) messages))"
    using sp_inv_replies [OF assms(1)] by (simp_all add: replies_inv_def)
  have e: "set (map fst ?g) = {0, 1, 2}"
    unfolding r(2) using p(2,4) by auto
  then have "length ?g = 3"
    using distinct_card [OF r(1)] by simp
  then show ?thesis
    using p(1,3) r(1,3) e by (simp add: messages_facts(1))
qed

lemma crossed_replies:
  "map_option (\<lambda>t. kid_got (sp_log t))
      (sp_exec [Parent True, Kid 0 True, Kid 0 True, Parent True, Parent True, Parent True, Kid 1 True, Kid 1 True, Kid 1 True]
        (sp_init (replicate 64 nul) (replicate 64 nul))) = Some [(1, Inr ''aaaok'')]"
  by code_simp

lemma lost_write:
  "\<exists>t. sp_exec [Parent True, Kid 0 True, Kid 0 False] (sp_init (replicate 64 nul) (replicate 64 nul)) = Some t \<and>
     parent_do True t = None \<and> (\<forall>i. kid_do i True t = None)"
proof -
  let ?t = "sp_init (replicate 64 nul) (replicate 64 nul)\<lparr>par := P_read,
    kids := [\<lparr>k_phase = K_exit 1, k_buf = replicate 64 nul\<rparr>]\<rparr>"
  have "sp_exec [Parent True, Kid 0 True, Kid 0 False] (sp_init (replicate 64 nul) (replicate 64 nul)) = Some ?t"
    by (simp add: sp_init_def parent_do_def kid_do_def set_kid_def)
  moreover have "parent_do True ?t = None" by (simp add: parent_do_def sp_init_def)
  moreover have "kid_do i True ?t = None" for i
    by (cases i) (simp_all add: kid_do_def)
  ultimately show ?thesis by blast
qed

section \<open>Property\<close>

text \<open>
  C5: the exchange over the socket pair. In every interleaving in which the system calls succeed nothing overflows and nobody
  waits for ever: the run ends with the parent having received the three messages in order, and every child has
  received exactly one reply; the replies are read in the order they were written. Which child reads which reply is
  not determined: a child may read the one meant for the child before it. If the first
  child's \<open>write\<close> fails, the parent waits for ever, because it holds the other end itself.
\<close>

theorem sp_exchange:
  assumes "reach sp_start sp_step s"
  shows "(par s = P_exit 0 \<or> (\<exists>t. sp_step s t)) \<and>
    wf {(t, s). reach sp_start sp_step s \<and> sp_step s t} \<and>
    (par s = P_exit 0 \<longrightarrow> parent_got (sp_log s) = messages \<and>
       map snd (kid_got (sp_log s)) = map (\<lambda>m. Inr (reply m)) messages \<and>
       distinct (map fst (kid_got (sp_log s))) \<and> set (map fst (kid_got (sp_log s))) = {0, 1, 2}) \<and>
    map_option (\<lambda>t. kid_got (sp_log t))
      (sp_exec [Parent True, Kid 0 True, Kid 0 True, Parent True, Parent True, Parent True, Kid 1 True, Kid 1 True, Kid 1 True]
        (sp_init (replicate 64 nul) (replicate 64 nul))) = Some [(1, Inr ''aaaok'')] \<and>
    (\<exists>t. sp_exec [Parent True, Kid 0 True, Kid 0 False] (sp_init (replicate 64 nul) (replicate 64 nul)) = Some t \<and>
       parent_do True t = None \<and> (\<forall>i. kid_do i True t = None))"
proof (intro conjI)
  note inv = sp_inv_reach [OF assms]
  show "par s = P_exit 0 \<or> (\<exists>t. sp_step s t)" using sp_progress [OF inv] .
  show "wf {(t, s). reach sp_start sp_step s \<and> sp_step s t}" by (rule sp_wf)
  show "par s = P_exit 0 \<longrightarrow> parent_got (sp_log s) = messages \<and>
       map snd (kid_got (sp_log s)) = map (\<lambda>m. Inr (reply m)) messages \<and>
       distinct (map fst (kid_got (sp_log s))) \<and> set (map fst (kid_got (sp_log s))) = {0, 1, 2}"
    using sp_final [OF inv] by blast
qed (rule crossed_replies lost_write)+

theorem sp_exchange_witness:
  "\<exists>t. sp_step (sp_init (replicate 64 nul) (replicate 64 nul)) t"
proof -
  have "reach sp_start sp_step (sp_init (replicate 64 nul) (replicate 64 nul))"
    by (rule reach_start) (unfold sp_start_def, intro exI conjI refl; simp add: BLOCK_def)
  from sp_exchange [OF this] show ?thesis by (simp add: sp_init_def)
qed

end
