(* ===== verification/Spec2Isabelle.thy ===== *)
theory Spec2Isabelle
  imports Ftw_Nochdir Ftw_Chdir Fortune Fortune_Module Vfs Workqueue_Module Client_Mains Task_State Proc_Main
    Fd_Write Fd_Threads Unix_Dgram Socketpair
begin

text \<open>
  A model of the operating-systems laboratory programs of this repository: Linux kernel modules and
  user programs in C, each small and nearly all independent of each other. The programs that interact are the
  clients and servers of \<open>lab_01\<close>.

  \<^bold>\<open>Conventions.\<close> Integers keep the width C gives them on x86-64 Linux (\<open>u32\<close>, \<open>u64\<close>); memory that
  the code indexes is a list of bytes, and an access outside it, a missing NUL, a NULL pointer or a use after
  release is a value of type \<open>fault\<close> (\<open>Prelude\<close>). The outcome of a kernel or library call is an argument of the
  model, so every error path is a branch. Concurrent programs are step relations or lists of atomic actions.

  \<^bold>\<open>Shared theories.\<close> \<open>Prelude\<close>: words, faults, the error monad, C strings in byte arrays, reachability.
  \<open>Printf\<close> and \<open>C_Parse\<close>: number conversions, and that what is printed is read back. \<open>Kmodule\<close>: modules as the
  sequence of resource calls they make; the locales \<open>kernel_module\<close> and \<open>ordered_module\<close> state what the kernel
  expects of an init and an exit function and prove once that no sequence of loads and unloads leaks.
  \<open>Semaphores\<close>: System V semaphore sets. \<open>Letter_Queue\<close>: the contract of the two letter servers, with
  the locale \<open>letter_queue\<close> that both implement.

  \<^bold>\<open>Letter servers\<close> (\<open>lab_01/client-server-af-inet\<close>). \<open>Mplex_Server\<close>: \<open>worker\<close>, \<open>producer\<close>, \<open>consumer\<close>, the set-up
  and the \<open>epoll\<close> loop of \<open>multiplex/server.c\<close>; \<open>Mplex_Serving\<close>: its replies are those of the bounded queue, it is memory
  safe, and what stops it. \<open>Mthread_Server\<close>: the threads of \<open>multithread/server.c\<close> as atomic actions
  (\<open>mt_do\<close>); \<open>Mthread_Run\<close>: invariant over all interleavings, mutual exclusion, order of the letters, no deadlock,
  and the race on \<open>connfd\<close>; \<open>Mthread_Main\<close>: set-up and the logged time. \<open>Letter_Clients\<close> and
  \<open>Client_Mains\<close>: the three clients, composed with the servers' replies.

  \<^bold>\<open>Local sockets\<close> (\<open>lab_01\<close>). \<open>Unix_Dgram\<close>: \<open>no-ans\<close> and \<open>with-ans\<close>, with stale buffers and the uninitialised
  address length; \<open>Socketpair\<close>: \<open>socketpair/main.c\<close> as steps of four processes, with progress and termination.

  \<^bold>\<open>File tree walkers\<close> (\<open>lab_02/ftw\<close>). \<open>Ftw\<close>: what both share, and the reference walk of a tree; \<open>Ftw_Nochdir\<close> and
  \<open>Ftw_Chdir\<close>: \<open>dopath\<close>, \<open>myftw\<close>, \<open>main\<close> of either file refine that walk. The recursion has a fuel argument; any
  fuel above the height of the tree is enough, and the theorems say so.

  \<^bold>\<open>Process inspector\<close> (\<open>lab_03/proc-1/main.c\<close>). \<open>Proc_Info\<close>: the text dumps; \<open>Proc_Stat\<close>: copies are
  complete and a status line is taken apart correctly; \<open>Proc_Maps\<close>: memory map, page map, \<open>analyze_process\<close>,
  \<open>main\<close>; \<open>Proc_Main\<close>: a map is dumped completely, and which processes are killed. The page loop has fuel: more than
  the pages of the largest region is enough when no region ends within a page of the top of the address space.

  \<^bold>\<open>Kernel modules.\<close> \<open>Task_State\<close> (\<open>lab_04/lkm-1/md.c\<close>): \<open>state_str\<close> and the walk over the task list. \<open>Fortune\<close> and
  \<open>Fortune_Module\<close> (\<open>lab_04/lkm-3/md.c\<close>): the pot of messages, loading and unloading. \<open>Vfs\<close> (\<open>lab_06/vfs.c\<close>):
  slab cache, object array, \<open>vfs_fill_sb\<close>. \<open>Keyboard\<close>, \<open>Tasklet_Module\<close>, \<open>Workqueue_Module\<close> (\<open>lab_07\<close>): the interrupt
  handlers and the deferred work; an interrupt may come between any two statements.

  \<^bold>\<open>Open files\<close> (\<open>lab_05/src\<close>). \<open>Fd_Read\<close> (\<open>1.c\<close>, \<open>2-1t.c\<close>), \<open>Fd_Threads\<close> (the four threaded readers; their sets of
  possible outputs are determined exactly), \<open>Fd_Write\<close> (\<open>3-write.c\<close>, \<open>3-fprintf.c\<close>).

  \<^bold>\<open>Not modelled.\<close> \<open>lab_04/lkm-2\<close> (modules that only print exported symbols; their behaviour is the kernel's
  symbol resolution), the commented-out code, texts of \<open>perror\<close>, the scripts, makefiles, data files and the report. The
  floating-point number of the inspector, the bit masks of kernel headers and the behaviour of the kernel are
  parameters.
\<close>

section \<open>All kernel modules\<close>


end
